theory Spec2Isabelle
  imports Main
begin

section \<open>Go strings: bytes, UTF-8 and the library functions the RAG service calls\<close>

text \<open>
  A Go string is a sequence of bytes; it is modelled as \<open>string\<close> (a list of 8-bit
  \<open>char\<close>s). Text outside ASCII is its UTF-8 encoding, byte by byte. A rune (a Unicode
  code point) is a natural number.

  The functions of this section are those of Go's packages \<open>unicode/utf8\<close>, \<open>unicode\<close>,
  \<open>strings\<close> and \<open>regexp\<close> that the service calls. The case-mapping tables of package
  \<open>unicode\<close> for runes above ASCII are not part of the repository: they are a parameter
  (\<open>tbl\<close>) of every function that changes case.
\<close>

type_synonym rune = nat

abbreviation RuneError :: rune where "RuneError \<equiv> 0xFFFD"
abbreviation RuneSelf :: nat where "RuneSelf \<equiv> 0x80"

text \<open>\<open>utf8.DecodeRuneInString\<close>: the first rune of the string and its width in bytes; an
  invalid or truncated encoding is \<open>(RuneError, 1)\<close>, the empty string \<open>(RuneError, 0)\<close>.\<close>

fun DecodeRuneInString :: "string \<Rightarrow> rune \<times> nat" where
  "DecodeRuneInString [] = (RuneError, 0)"
| "DecodeRuneInString (c0 # cs) =
    (let s0 = (of_char c0 :: nat) in
     if s0 < RuneSelf then (s0, 1)
     else if s0 < 0xC2 \<or> 0xF4 < s0 then (RuneError, 1)
     else
       let sz = (if s0 < 0xE0 then 2 else if s0 < 0xF0 then 3 else 4 :: nat);
           lo = (if s0 = 0xE0 then 0xA0 else if s0 = 0xF0 then 0x90 else 0x80 :: nat);
           hi = (if s0 = 0xED then 0x9F else if s0 = 0xF4 then 0x8F else 0xBF :: nat)
       in
       if length (c0 # cs) < sz then (RuneError, 1)
       else
         (case cs of
            [] \<Rightarrow> (RuneError, 1)
          | c1 # cs1 \<Rightarrow>
              let s1 = (of_char c1 :: nat) in
              if s1 < lo \<or> hi < s1 then (RuneError, 1)
              else if sz \<le> 2 then ((s0 mod 32) * 64 + s1 mod 64, 2)
              else
                (case cs1 of
                   [] \<Rightarrow> (RuneError, 1)
                 | c2 # cs2 \<Rightarrow>
                     let s2 = (of_char c2 :: nat) in
                     if s2 < 0x80 \<or> 0xBF < s2 then (RuneError, 1)
                     else if sz \<le> 3 then
                       ((s0 mod 16) * 4096 + (s1 mod 64) * 64 + s2 mod 64, 3)
                     else
                       (case cs2 of
                          [] \<Rightarrow> (RuneError, 1)
                        | c3 # cs3 \<Rightarrow>
                            let s3 = (of_char c3 :: nat) in
                            if s3 < 0x80 \<or> 0xBF < s3 then (RuneError, 1)
                            else ((s0 mod 8) * 262144 + (s1 mod 64) * 4096
                                    + (s2 mod 64) * 64 + s3 mod 64, 4)))))"

text \<open>\<open>utf8.RuneStart\<close>: the byte is not a continuation byte.\<close>

definition RuneStart :: "char \<Rightarrow> bool" where
  "RuneStart c = (\<not> (0x80 \<le> (of_char c :: nat) \<and> (of_char c :: nat) < 0xC0))"

text \<open>The loop of \<open>utf8.DecodeLastRuneInString\<close> that walks back from \<open>start\<close> to \<open>lim\<close>
  and stops at a byte that starts a rune.\<close>

function backToRuneStart :: "string \<Rightarrow> int \<Rightarrow> int \<Rightarrow> int" where
  "backToRuneStart s start lim =
     (if lim \<le> start then
        (if RuneStart (s ! nat start) then start else backToRuneStart s (start - 1) lim)
      else start)"
  by pat_completeness auto
termination
  by (relation "measure (\<lambda>(s, start, lim). nat (start - lim + 1))") auto

definition DecodeLastRuneInString :: "string \<Rightarrow> rune \<times> nat" where
  "DecodeLastRuneInString s =
     (let end = length s in
      if end = 0 then (RuneError, 0)
      else
        let r = (of_char (s ! (end - 1)) :: nat) in
        if r < RuneSelf then (r, 1)
        else
          let lim = max 0 (int end - 4);
              start0 = backToRuneStart s (int end - 2) lim;
              start = (if start0 < 0 then 0 else nat start0);
              (r, size) = DecodeRuneInString (drop start s)
          in if start + size \<noteq> end then (RuneError, 1) else (r, size))"

text \<open>\<open>utf8.AppendRune\<close>: the UTF-8 encoding of a rune; surrogates and values above
  U+10FFFF are encoded as \<open>RuneError\<close>.\<close>

definition encodeRune :: "rune \<Rightarrow> string" where
  "encodeRune r =
     (if r \<le> 0x7F then [char_of r]
      else if r \<le> 0x7FF then [char_of (0xC0 + r div 64), char_of (0x80 + r mod 64)]
      else if 0x10FFFF < r \<or> (0xD800 \<le> r \<and> r \<le> 0xDFFF) then [CHR 0xEF, CHR 0xBF, CHR 0xBD]
      else if r \<le> 0xFFFF then
        [char_of (0xE0 + r div 4096), char_of (0x80 + (r div 64) mod 64),
         char_of (0x80 + r mod 64)]
      else
        [char_of (0xF0 + r div 262144), char_of (0x80 + (r div 4096) mod 64),
         char_of (0x80 + (r div 64) mod 64), char_of (0x80 + r mod 64)])"

text \<open>\<open>unicode.ToUpper\<close> and \<open>unicode.ToLower\<close>: ASCII is mapped by the code of the
  package, every other rune by its case tables (the parameter).\<close>

definition unicode_ToUpper :: "(rune \<Rightarrow> rune) \<Rightarrow> rune \<Rightarrow> rune" where
  "unicode_ToUpper tbl r =
     (if r \<le> 0x7F then (if 0x61 \<le> r \<and> r \<le> 0x7A then r - 0x20 else r) else tbl r)"

definition unicode_ToLower :: "(rune \<Rightarrow> rune) \<Rightarrow> rune \<Rightarrow> rune" where
  "unicode_ToLower tbl r =
     (if r \<le> 0x7F then (if 0x41 \<le> r \<and> r \<le> 0x5A then r + 0x20 else r) else tbl r)"

text \<open>\<open>unicode.IsSpace\<close>: the Unicode White_Space property.\<close>

definition asciiSpace :: "nat \<Rightarrow> bool" where
  "asciiSpace b = (b = 0x09 \<or> b = 0x0A \<or> b = 0x0B \<or> b = 0x0C \<or> b = 0x0D \<or> b = 0x20)"

definition unicode_IsSpace :: "rune \<Rightarrow> bool" where
  "unicode_IsSpace r =
     (if r \<le> 0xFF then (asciiSpace r \<or> r = 0x85 \<or> r = 0xA0)
      else (r = 0x1680 \<or> (0x2000 \<le> r \<and> r \<le> 0x200A) \<or> r = 0x2028 \<or> r = 0x2029
            \<or> r = 0x202F \<or> r = 0x205F \<or> r = 0x3000))"

text \<open>\<open>strings.Map\<close>: every rune of the string, decoded as a \<open>range\<close> loop does, is
  replaced by the encoding of its image (an invalid byte becomes the encoding of the image of
  \<open>RuneError\<close>).\<close>

fun strings_Map :: "(rune \<Rightarrow> rune) \<Rightarrow> string \<Rightarrow> string" where
  "strings_Map f [] = []"
| "strings_Map f (c # cs) =
     (let (r, w) = DecodeRuneInString (c # cs)
      in encodeRune (f r) @ strings_Map f (drop (w - 1) cs))"

definition isASCII :: "string \<Rightarrow> bool" where
  "isASCII s = list_all (\<lambda>c. (of_char c :: nat) < RuneSelf) s"

definition asciiUpper :: "char \<Rightarrow> char" where
  "asciiUpper c =
     (if 0x61 \<le> (of_char c :: nat) \<and> (of_char c :: nat) \<le> 0x7A
      then char_of ((of_char c :: nat) - 0x20) else c)"

definition asciiLower :: "char \<Rightarrow> char" where
  "asciiLower c =
     (if 0x41 \<le> (of_char c :: nat) \<and> (of_char c :: nat) \<le> 0x5A
      then char_of ((of_char c :: nat) + 0x20) else c)"

text \<open>\<open>strings.ToUpper\<close> and \<open>strings.ToLower\<close>: a byte loop for an ASCII string,
  \<open>strings.Map\<close> over the runes otherwise.\<close>

definition strings_ToUpper :: "(rune \<Rightarrow> rune) \<Rightarrow> string \<Rightarrow> string" where
  "strings_ToUpper tbl s =
     (if isASCII s then map asciiUpper s else strings_Map (unicode_ToUpper tbl) s)"

definition strings_ToLower :: "(rune \<Rightarrow> rune) \<Rightarrow> string \<Rightarrow> string" where
  "strings_ToLower tbl s =
     (if isASCII s then map asciiLower s else strings_Map (unicode_ToLower tbl) s)"

text \<open>\<open>strings.TrimLeftFunc\<close> and \<open>strings.TrimRightFunc\<close>, with \<open>indexFunc\<close> and
  \<open>lastIndexFunc\<close> for the truth value \<open>false\<close>.\<close>

fun TrimLeftFunc :: "(rune \<Rightarrow> bool) \<Rightarrow> string \<Rightarrow> string" where
  "TrimLeftFunc f [] = []"
| "TrimLeftFunc f (c # cs) =
     (let (r, w) = DecodeRuneInString (c # cs)
      in if f r then TrimLeftFunc f (drop (w - 1) cs) else c # cs)"

lemma backToRuneStart_le: "backToRuneStart s start lim \<le> start"
proof (induction s start lim rule: backToRuneStart.induct)
  case (1 s start lim)
  show ?case
  proof (cases "lim \<le> start \<and> \<not> RuneStart (s ! nat start)")
    case True
    with 1 have "backToRuneStart s (start - 1) lim \<le> start - 1" by simp
    with True show ?thesis by (subst backToRuneStart.simps) simp
  next
    case False
    then show ?thesis by (subst backToRuneStart.simps) auto
  qed
qed

lemma DecodeLastRuneInString_size_pos:
  assumes "s \<noteq> []"
  shows "1 \<le> snd (DecodeLastRuneInString s)"
proof -
  define start0 where "start0 = backToRuneStart s (int (length s) - 2) (max 0 (int (length s) - 4))"
  define start where "start = (if start0 < 0 then 0 else nat start0)"
  have len: "0 < length s" using assms by simp
  have "start0 \<le> int (length s) - 2"
    unfolding start0_def by (rule backToRuneStart_le)
  with len have lt: "start < length s"
    unfolding start_def by (cases "start0 < 0") simp_all
  obtain r size where rs: "DecodeRuneInString (drop start s) = (r, size)"
    by (cases "DecodeRuneInString (drop start s)")
  have eq: "DecodeLastRuneInString s =
    (if (of_char (s ! (length s - 1)) :: nat) < RuneSelf then (of_char (s ! (length s - 1)), 1)
     else if start + size \<noteq> length s then (RuneError, 1) else (r, size))"
    using len rs
    by (simp only: DecodeLastRuneInString_def Let_def start_def [symmetric] start0_def [symmetric])
       simp
  from lt show ?thesis
    unfolding eq by (simp split: if_split)
qed

function lastIndexFunc :: "(rune \<Rightarrow> bool) \<Rightarrow> bool \<Rightarrow> string \<Rightarrow> nat option" where
  "lastIndexFunc f truth s =
     (if s = [] then None
      else
        let (r, size) = DecodeLastRuneInString s;
            i = length s - size
        in if f r = truth then Some i else lastIndexFunc f truth (take i s))"
  by pat_completeness auto
termination
proof (relation "measure (\<lambda>(f, truth, s). length s)", goal_cases)
  case 1
  show ?case by simp
next
  case (2 f truth s x r size i)
  then have "1 \<le> size" using DecodeLastRuneInString_size_pos [of s] by (metis snd_conv)
  with 2 show ?case by (cases s) auto
qed

definition TrimRightFunc :: "(rune \<Rightarrow> bool) \<Rightarrow> string \<Rightarrow> string" where
  "TrimRightFunc f s =
     (case lastIndexFunc f False s of
        None \<Rightarrow> []
      | Some i \<Rightarrow>
          if RuneSelf \<le> (of_char (s ! i) :: nat)
          then take (i + snd (DecodeRuneInString (drop i s))) s
          else take (i + 1) s)"

definition TrimFunc :: "(rune \<Rightarrow> bool) \<Rightarrow> string \<Rightarrow> string" where
  "TrimFunc f s = TrimRightFunc f (TrimLeftFunc f s)"

text \<open>\<open>strings.TrimSpace\<close>: two byte loops over ASCII white space, from the start and from
  the end; the first byte outside ASCII hands the rest to the rune-wise trimming.\<close>

function trimSpaceStop :: "string \<Rightarrow> string" where
  "trimSpaceStop s =
     (if s = [] then []
      else if RuneSelf \<le> (of_char (last s) :: nat) then TrimRightFunc unicode_IsSpace s
      else if asciiSpace (of_char (last s)) then trimSpaceStop (butlast s)
      else s)"
  by pat_completeness auto
termination
  by (relation "measure length") auto

fun strings_TrimSpace :: "string \<Rightarrow> string" where
  "strings_TrimSpace [] = []"
| "strings_TrimSpace (c # cs) =
     (if RuneSelf \<le> (of_char c :: nat) then TrimFunc unicode_IsSpace (c # cs)
      else if asciiSpace (of_char c) then strings_TrimSpace cs
      else trimSpaceStop (c # cs))"

text \<open>\<open>strings.HasPrefix\<close>, \<open>strings.Contains\<close>, \<open>strings.TrimRight\<close> with a one-byte
  cutset, \<open>strings.Split\<close> at a one-byte separator and \<open>strings.Join\<close>.\<close>

fun strings_HasPrefix :: "string \<Rightarrow> string \<Rightarrow> bool" where
  "strings_HasPrefix s [] = True"
| "strings_HasPrefix [] (p # ps) = False"
| "strings_HasPrefix (c # cs) (p # ps) = (c = p \<and> strings_HasPrefix cs ps)"

fun strings_Contains :: "string \<Rightarrow> string \<Rightarrow> bool" where
  "strings_Contains [] sub = (sub = [])"
| "strings_Contains (c # cs) sub = (strings_HasPrefix (c # cs) sub \<or> strings_Contains cs sub)"

definition strings_TrimRight1 :: "string \<Rightarrow> char \<Rightarrow> string" where
  "strings_TrimRight1 s b = rev (dropWhile (\<lambda>c. c = b) (rev s))"

fun strings_Split1 :: "string \<Rightarrow> char \<Rightarrow> string list" where
  "strings_Split1 [] sep = [[]]"
| "strings_Split1 (c # cs) sep =
     (if c = sep then [] # strings_Split1 cs sep
      else (case strings_Split1 cs sep of
              [] \<Rightarrow> [[c]]
            | l # ls \<Rightarrow> (c # l) # ls))"

fun strings_Join :: "string list \<Rightarrow> string \<Rightarrow> string" where
  "strings_Join [] sep = []"
| "strings_Join [a] sep = a"
| "strings_Join (a # b # rest) sep = a @ sep @ strings_Join (b # rest) sep"

text \<open>The regular expression \<open>\b\<close> + kw + \<open>\b\<close> of \<open>validateReadOnlySQL\<close>, for a keyword
  \<open>kw\<close> that is a non-empty literal of word characters: \<open>re.MatchString\<close> is true when
  \<open>kw\<close> occurs with no word character (\<open>[0-9A-Za-z_]\<close>) right before it and none right
  after it. The flag of \<open>matchWordFrom\<close> says whether the byte before the position is a
  word character.\<close>

definition isWordChar :: "char \<Rightarrow> bool" where
  "isWordChar c =
     (let b = (of_char c :: nat)
      in (0x30 \<le> b \<and> b \<le> 0x39) \<or> (0x41 \<le> b \<and> b \<le> 0x5A) \<or> b = 0x5F
         \<or> (0x61 \<le> b \<and> b \<le> 0x7A))"

definition wordEndsAt :: "string \<Rightarrow> bool" where
  "wordEndsAt rest = (case rest of [] \<Rightarrow> True | c # cs \<Rightarrow> \<not> isWordChar c)"

fun matchWordFrom :: "string \<Rightarrow> bool \<Rightarrow> string \<Rightarrow> bool" where
  "matchWordFrom kw prevWord [] = False"
| "matchWordFrom kw prevWord (c # cs) =
     ((\<not> prevWord \<and> strings_HasPrefix (c # cs) kw \<and> wordEndsAt (drop (length kw) (c # cs)))
      \<or> matchWordFrom kw (isWordChar c) cs)"

definition regexp_MatchWord :: "string \<Rightarrow> string \<Rightarrow> bool" where
  "regexp_MatchWord kw s = matchWordFrom kw False s"

section \<open>The RAG service (\<open>RAGService\<close>)\<close>

subsection \<open>Errors\<close>

text \<open>The static errors of the service. An error wrapped with \<open>fmt.Errorf("%w: ...")\<close>
  carries the text it was wrapped with. \<open>ErrExternal\<close> stands for the errors of the
  libraries (\<open>net/http\<close>, \<open>database/sql\<close>, \<open>encoding/json\<close>).\<close>

datatype error =
    ErrIntentIsChat
  | ErrUnknownIntent
  | ErrUnsupportedDBType
  | ErrAPIKeyNotSet
  | ErrQwenAPI nat string
  | ErrQwenEmptyChoice
  | ErrGeneratedSQLEmpty
  | ErrGeneratedSQLNotSelect string
  | ErrGeneratedSQLForbidden string
  | ErrGeneratedSQLChars string
  | ErrExternal string

definition intentChat :: string where
  "intentChat = ''chat''"

definition intentQueryData :: string where
  "intentQueryData = ''query_data''"

subsection \<open>\<open>validateReadOnlySQL\<close>\<close>

definition forbiddenKeywords :: "string list" where
  "forbiddenKeywords = [''DELETE'', ''UPDATE'', ''DROP'', ''INSERT'', ''TRUNCATE'', ''ALTER'']"

definition forbiddenChars :: "string list" where
  "forbiddenChars = ['';'', ''--'', ''/*'']"

text \<open>\<open>None\<close> is Go's \<open>nil\<close>. The two loops return at the first element that matches
  (\<open>find\<close>). The branch for a regular expression that does not compile is left out: the six
  patterns are constants that compile.\<close>

definition validateReadOnlySQL :: "(rune \<Rightarrow> rune) \<Rightarrow> string \<Rightarrow> error option" where
  "validateReadOnlySQL tbl sqlText =
     (if sqlText = [] then Some ErrGeneratedSQLEmpty
      else
        let up = strings_ToUpper tbl (strings_TrimSpace sqlText) in
        if \<not> strings_HasPrefix up ''SELECT'' then Some (ErrGeneratedSQLNotSelect sqlText)
        else
          (case find (\<lambda>kw. regexp_MatchWord kw up) forbiddenKeywords of
             Some kw \<Rightarrow> Some (ErrGeneratedSQLForbidden kw)
           | None \<Rightarrow>
               (case find (\<lambda>kw. strings_Contains up kw) forbiddenChars of
                  Some kw \<Rightarrow> Some (ErrGeneratedSQLChars kw)
                | None \<Rightarrow> None)))"

subsection \<open>Text constants\<close>

text \<open>
  The service matches questions against Chinese phrases and sends Chinese prompts. They are
  written here as their UTF-8 bytes; the comment above each constant gives the code points
  and an English gloss.
\<close>

text \<open>U+67E5 U+8BE2 U+6211 U+7684 U+4EFB U+52A1: query my tasks.\<close>

definition txtQueryMyTasks :: string where
  "txtQueryMyTasks =
     [CHR 0xE6, CHR 0x9F, CHR 0xA5, CHR 0xE8, CHR 0xAF, CHR 0xA2, CHR 0xE6, CHR 0x88, CHR 0x91, CHR 0xE7, CHR 0x9A, CHR 0x84, CHR 0xE4, CHR 0xBB, CHR 0xBB, CHR 0xE5, CHR 0x8A, CHR 0xA1]"

text \<open>U+6211 U+7684 U+4EFB U+52A1: my tasks.\<close>

definition txtMyTasks :: string where
  "txtMyTasks =
     [CHR 0xE6, CHR 0x88, CHR 0x91, CHR 0xE7, CHR 0x9A, CHR 0x84, CHR 0xE4, CHR 0xBB, CHR 0xBB, CHR 0xE5, CHR 0x8A, CHR 0xA1]"

text \<open>U+4EFB U+52A1: task.\<close>

definition txtTask :: string where
  "txtTask =
     [CHR 0xE4, CHR 0xBB, CHR 0xBB, CHR 0xE5, CHR 0x8A, CHR 0xA1]"

text \<open>U+6211: I, me.\<close>

definition txtMe :: string where
  "txtMe =
     [CHR 0xE6, CHR 0x88, CHR 0x91]"

text \<open>U+67E5 U+8BE2: query.\<close>

definition txtQuery :: string where
  "txtQuery =
     [CHR 0xE6, CHR 0x9F, CHR 0xA5, CHR 0xE8, CHR 0xAF, CHR 0xA2]"

text \<open>U+4EE3 U+529E: to do (as the source spells it).\<close>

definition txtDaiban :: string where
  "txtDaiban =
     [CHR 0xE4, CHR 0xBB, CHR 0xA3, CHR 0xE5, CHR 0x8A, CHR 0x9E]"

text \<open>U+5F85 U+529E: to do.\<close>

definition txtTodo :: string where
  "txtTodo =
     [CHR 0xE5, CHR 0xBE, CHR 0x85, CHR 0xE5, CHR 0x8A, CHR 0x9E]"

text \<open>U+8FDB U+884C U+4E2D: in progress.\<close>

definition txtInProgress :: string where
  "txtInProgress =
     [CHR 0xE8, CHR 0xBF, CHR 0x9B, CHR 0xE8, CHR 0xA1, CHR 0x8C, CHR 0xE4, CHR 0xB8, CHR 0xAD]"

text \<open>U+672A U+5B8C U+6210: not completed.\<close>

definition txtNotDone :: string where
  "txtNotDone =
     [CHR 0xE6, CHR 0x9C, CHR 0xAA, CHR 0xE5, CHR 0xAE, CHR 0x8C, CHR 0xE6, CHR 0x88, CHR 0x90]"

text \<open>U+5B8C U+6210: completed.\<close>

definition txtDone :: string where
  "txtDone =
     [CHR 0xE5, CHR 0xAE, CHR 0x8C, CHR 0xE6, CHR 0x88, CHR 0x90]"

text \<open>U+5DF2 U+5B8C U+6210: already completed.\<close>

definition txtAlreadyDone :: string where
  "txtAlreadyDone =
     [CHR 0xE5, CHR 0xB7, CHR 0xB2, CHR 0xE5, CHR 0xAE, CHR 0x8C, CHR 0xE6, CHR 0x88, CHR 0x90]"

text \<open>U+903E U+671F: overdue.\<close>

definition txtOverdue :: string where
  "txtOverdue =
     [CHR 0xE9, CHR 0x80, CHR 0xBE, CHR 0xE6, CHR 0x9C, CHR 0x9F]"

text \<open>U+8FC7 U+671F: expired.\<close>

definition txtExpired :: string where
  "txtExpired =
     [CHR 0xE8, CHR 0xBF, CHR 0x87, CHR 0xE6, CHR 0x9C, CHR 0x9F]"

text \<open>U+622A U+6B62: deadline.\<close>

definition txtDeadline :: string where
  "txtDeadline =
     [CHR 0xE6, CHR 0x88, CHR 0xAA, CHR 0xE6, CHR 0xAD, CHR 0xA2]"

text \<open>U+5230 U+671F: due.\<close>

definition txtDue :: string where
  "txtDue =
     [CHR 0xE5, CHR 0x88, CHR 0xB0, CHR 0xE6, CHR 0x9C, CHR 0x9F]"

text \<open>U+8FC7 U+4E86 U+622A U+6B62 U+65E5 U+671F: past the deadline.\<close>

definition txtPastDeadline :: string where
  "txtPastDeadline =
     [CHR 0xE8, CHR 0xBF, CHR 0x87, CHR 0xE4, CHR 0xBA, CHR 0x86, CHR 0xE6, CHR 0x88, CHR 0xAA, CHR 0xE6, CHR 0xAD, CHR 0xA2, CHR 0xE6, CHR 0x97, CHR 0xA5, CHR 0xE6, CHR 0x9C, CHR 0x9F]"

text \<open>U+622A U+6B62 U+65E5 U+671F U+5DF2 U+8FC7: the deadline has passed.\<close>

definition txtDeadlinePassed :: string where
  "txtDeadlinePassed =
     [CHR 0xE6, CHR 0x88, CHR 0xAA, CHR 0xE6, CHR 0xAD, CHR 0xA2, CHR 0xE6, CHR 0x97, CHR 0xA5, CHR 0xE6, CHR 0x9C, CHR 0x9F, CHR 0xE5, CHR 0xB7, CHR 0xB2, CHR 0xE8, CHR 0xBF, CHR 0x87]"

text \<open>U+5DF2 U+8FC7 U+671F: already expired.\<close>

definition txtAlreadyExpired :: string where
  "txtAlreadyExpired =
     [CHR 0xE5, CHR 0xB7, CHR 0xB2, CHR 0xE8, CHR 0xBF, CHR 0x87, CHR 0xE6, CHR 0x9C, CHR 0x9F]"

text \<open>U+5904 U+7406 U+4E2D: being processed.\<close>

definition txtProcessing :: string where
  "txtProcessing =
     [CHR 0xE5, CHR 0xA4, CHR 0x84, CHR 0xE7, CHR 0x90, CHR 0x86, CHR 0xE4, CHR 0xB8, CHR 0xAD]"

text \<open>The schema text handed to \<open>generateSQL\<close>.\<close>

definition ragSchemaDDL :: string where
  "ragSchemaDDL =
     [CHR 0x0A] @ ''-- boards: ''
     @ [CHR 0xE7, CHR 0x9C, CHR 0x8B, CHR 0xE6, CHR 0x9D, CHR 0xBF, CHR 0x0A]
     @ ''CREATE TABLE boards ('' @ [CHR 0x0A] @ ''  id TEXT PRIMARY KEY,'' @ [CHR 0x0A]
     @ ''  team_id TEXT,'' @ [CHR 0x0A] @ ''  title TEXT,'' @ [CHR 0x0A]
     @ ''  description TEXT,'' @ [CHR 0x0A] @ ''  create_at INTEGER,'' @ [CHR 0x0A]
     @ ''  update_at INTEGER,'' @ [CHR 0x0A] @ ''  delete_at INTEGER'' @ [CHR 0x0A] @ '');''
     @ [CHR 0x0A, CHR 0x0A] @ ''-- blocks: ''
     @ [CHR 0xE4, CHR 0xB8, CHR 0x8D, CHR 0xE5, CHR 0x90, CHR 0x8C, CHR 0xE5, CHR 0x86, CHR 0x85, CHR 0xE5, CHR 0xAE, CHR 0xB9, CHR 0xE5, CHR 0x9D, CHR 0x97, CHR 0xEF, CHR 0xBC, CHR 0x88]
     @ [CHR 0xE5, CHR 0x8C, CHR 0x85, CHR 0xE6, CHR 0x8B, CHR 0xAC, CHR 0xE5, CHR 0x8D, CHR 0xA1, CHR 0xE7, CHR 0x89, CHR 0x87, CHR 0xE3, CHR 0x80, CHR 0x81, CHR 0xE5, CHR 0x88, CHR 0x86]
     @ [CHR 0xE7, CHR 0xBB, CHR 0x84, CHR 0xE3, CHR 0x80, CHR 0x81, CHR 0xE5, CHR 0xB1, CHR 0x9E, CHR 0xE6, CHR 0x80, CHR 0xA7, CHR 0xE7, CHR 0xAD, CHR 0x89, CHR 0xEF, CHR 0xBC, CHR 0x89]
     @ [CHR 0xEF, CHR 0xBC, CHR 0x8C, CHR 0xE5, CHR 0x85, CHR 0xB6, CHR 0xE4, CHR 0xB8, CHR 0xAD]
     @ '' type='card' ''
     @ [CHR 0xE4, CHR 0xBB, CHR 0xA3, CHR 0xE8, CHR 0xA1, CHR 0xA8, CHR 0xE5, CHR 0x8D, CHR 0xA1, CHR 0xE7, CHR 0x89, CHR 0x87, CHR 0x0A]
     @ ''CREATE TABLE blocks ('' @ [CHR 0x0A] @ ''  id TEXT PRIMARY KEY,'' @ [CHR 0x0A]
     @ ''  board_id TEXT,'' @ [CHR 0x0A] @ ''  parent_id TEXT,'' @ [CHR 0x0A]
     @ ''  root_id TEXT,'' @ [CHR 0x0A]
     @ ''  type TEXT,                 -- e.g. 'card', 'view', 'property''
     @ [CHR 0x27, CHR 0x0A] @ ''  title TEXT,'' @ [CHR 0x0A]
     @ ''  fields TEXT,               -- JSON string that may include assignee_id, status, due_date, etc.''
     @ [CHR 0x0A] @ ''  create_at INTEGER,'' @ [CHR 0x0A] @ ''  update_at INTEGER,''
     @ [CHR 0x0A] @ ''  delete_at INTEGER'' @ [CHR 0x0A] @ '');'' @ [CHR 0x0A, CHR 0x0A]
     @ ''-- ''
     @ [CHR 0xE5, CHR 0x85, CHR 0xB8, CHR 0xE5, CHR 0x9E, CHR 0x8B, CHR 0xE7, CHR 0x9A, CHR 0x84, CHR 0xE6, CHR 0x9F, CHR 0xA5, CHR 0xE8, CHR 0xAF, CHR 0xA2, CHR 0xEF, CHR 0xBC, CHR 0x9A]
     @ [CHR 0xE6, CHR 0x8C, CHR 0x89, CHR 0xE7, CHR 0x94, CHR 0xA8, CHR 0xE6, CHR 0x88, CHR 0xB7, CHR 0xE7, CHR 0xAD, CHR 0x9B, CHR 0xE9, CHR 0x80, CHR 0x89, CHR 0xE5, CHR 0x85, CHR 0xB6]
     @ [CHR 0xE5, CHR 0x8D, CHR 0xA1, CHR 0xE7, CHR 0x89, CHR 0x87, CHR 0xEF, CHR 0xBC, CHR 0x88]
     @ ''assignee_id '' @ [CHR 0xE5, CHR 0x9C, CHR 0xA8] @ '' blocks.fields JSON ''
     @ [CHR 0xE5, CHR 0x86, CHR 0x85, CHR 0xE9, CHR 0x83, CHR 0xA8, CHR 0xEF, CHR 0xBC, CHR 0x89, CHR 0x0A]
     @ ''-- ''
     @ [CHR 0xE4, CHR 0xBE, CHR 0x8B, CHR 0xE5, CHR 0xA6, CHR 0x82, CHR 0xE5, CHR 0x9C, CHR 0xA8]
     @ '' sqlite '' @ [CHR 0xE4, CHR 0xB8, CHR 0xAD, CHR 0xEF, CHR 0xBC, CHR 0x9A]
     @ ''json_extract(fields, '$.assignee_id') = '<userID>'' @ [CHR 0x27, CHR 0x0A]"

text \<open>The format string of the classifier's prompt, before and after its \<open>%s\<close>.\<close>

definition classifyPromptHead :: string where
  "classifyPromptHead =
     [CHR 0xE4, CHR 0xBD, CHR 0xA0, CHR 0xE6, CHR 0x98, CHR 0xAF, CHR 0xE4, CHR 0xB8, CHR 0x80, CHR 0xE4, CHR 0xB8, CHR 0xAA, CHR 0xE5, CHR 0x88, CHR 0x86, CHR 0xE7, CHR 0xB1, CHR 0xBB]
     @ [CHR 0xE5, CHR 0x99, CHR 0xA8, CHR 0xE3, CHR 0x80, CHR 0x82, CHR 0xE8, CHR 0xAF, CHR 0xB7, CHR 0xE5, CHR 0x8F, CHR 0xAA, CHR 0xE8, CHR 0xBE, CHR 0x93, CHR 0xE5, CHR 0x87, CHR 0xBA]
     @ [CHR 0xE4, CHR 0xB8, CHR 0x80, CHR 0xE4, CHR 0xB8, CHR 0xAA, CHR 0xE8, CHR 0xAF, CHR 0x8D, CHR 0xEF, CHR 0xBC, CHR 0x9A]
     @ ''chat '' @ [CHR 0xE6, CHR 0x88, CHR 0x96] @ '' query_data''
     @ [CHR 0xE3, CHR 0x80, CHR 0x82, CHR 0x0A, CHR 0xE8, CHR 0xA7, CHR 0x84, CHR 0xE5, CHR 0x88, CHR 0x99, CHR 0xEF, CHR 0xBC, CHR 0x9A, CHR 0x0A]
     @ ''- ''
     @ [CHR 0xE5, CHR 0xBD, CHR 0x93, CHR 0xE7, CHR 0x94, CHR 0xA8, CHR 0xE6, CHR 0x88, CHR 0xB7, CHR 0xE6, CHR 0x98, CHR 0xAF, CHR 0xE5, CHR 0x9C, CHR 0xA8, CHR 0xE9, CHR 0x97, CHR 0xB2]
     @ [CHR 0xE8, CHR 0x81, CHR 0x8A, CHR 0xE3, CHR 0x80, CHR 0x81, CHR 0xE9, CHR 0x97, CHR 0xAE, CHR 0xE5, CHR 0x80, CHR 0x99, CHR 0xE3, CHR 0x80, CHR 0x81, CHR 0xE6, CHR 0x88, CHR 0x96]
     @ [CHR 0xE6, CHR 0xB2, CHR 0xA1, CHR 0xE6, CHR 0x9C, CHR 0x89, CHR 0xE6, CHR 0x98, CHR 0x8E, CHR 0xE7, CHR 0xA1, CHR 0xAE, CHR 0xE8, CHR 0xA6, CHR 0x81, CHR 0xE6, CHR 0xB1, CHR 0x82]
     @ [CHR 0xE6, CHR 0x9F, CHR 0xA5, CHR 0xE8, CHR 0xAF, CHR 0xA2, CHR 0xE9, CHR 0xA1, CHR 0xB9, CHR 0xE7, CHR 0x9B, CHR 0xAE, CHR 0xE6, CHR 0x95, CHR 0xB0, CHR 0xE6, CHR 0x8D, CHR 0xAE]
     @ [CHR 0xE6, CHR 0x97, CHR 0xB6, CHR 0xEF, CHR 0xBC, CHR 0x8C, CHR 0xE8, CHR 0xBE, CHR 0x93, CHR 0xE5, CHR 0x87, CHR 0xBA]
     @ '' chat'' @ [CHR 0xE3, CHR 0x80, CHR 0x82, CHR 0x0A] @ ''- ''
     @ [CHR 0xE5, CHR 0xBD, CHR 0x93, CHR 0xE7, CHR 0x94, CHR 0xA8, CHR 0xE6, CHR 0x88, CHR 0xB7, CHR 0xE5, CHR 0x9C, CHR 0xA8, CHR 0xE8, CHR 0xAF, CHR 0xB7, CHR 0xE6, CHR 0xB1, CHR 0x82]
     @ [CHR 0xE5, CHR 0x92, CHR 0x8C] @ '' Focalboard ''
     @ [CHR 0xE9, CHR 0xA1, CHR 0xB9, CHR 0xE7, CHR 0x9B, CHR 0xAE, CHR 0xE6, CHR 0x95, CHR 0xB0, CHR 0xE6, CHR 0x8D, CHR 0xAE, CHR 0xE7, CHR 0x9B, CHR 0xB8, CHR 0xE5, CHR 0x85, CHR 0xB3]
     @ [CHR 0xE7, CHR 0x9A, CHR 0x84, CHR 0xE7, CHR 0xBB, CHR 0x9F, CHR 0xE8, CHR 0xAE, CHR 0xA1, CHR 0xE3, CHR 0x80, CHR 0x81, CHR 0xE7, CHR 0xAD, CHR 0x9B, CHR 0xE9, CHR 0x80, CHR 0x89]
     @ [CHR 0xE3, CHR 0x80, CHR 0x81, CHR 0xE5, CHR 0x88, CHR 0x97, CHR 0xE8, CHR 0xA1, CHR 0xA8, CHR 0xE3, CHR 0x80, CHR 0x81, CHR 0xE8, CHR 0xBF, CHR 0x9B, CHR 0xE5, CHR 0xBA, CHR 0xA6]
     @ [CHR 0xE7, CHR 0xAD, CHR 0x89, CHR 0xE6, CHR 0x9F, CHR 0xA5, CHR 0xE8, CHR 0xAF, CHR 0xA2, CHR 0xE6, CHR 0x97, CHR 0xB6, CHR 0xEF, CHR 0xBC, CHR 0x8C, CHR 0xE8, CHR 0xBE, CHR 0x93]
     @ [CHR 0xE5, CHR 0x87, CHR 0xBA] @ '' query_data''
     @ [CHR 0xE3, CHR 0x80, CHR 0x82, CHR 0x0A, CHR 0x0A, CHR 0xE7, CHR 0x94, CHR 0xA8, CHR 0xE6, CHR 0x88, CHR 0xB7, CHR 0xE9, CHR 0x97, CHR 0xAE, CHR 0xE9, CHR 0xA2, CHR 0x98, CHR 0xEF]
     @ [CHR 0xBC, CHR 0x9A, CHR 0x0A]"

definition classifyPromptTail :: string where
  "classifyPromptTail =
     [CHR 0x0A, CHR 0x0A, CHR 0xE5, CHR 0x8F, CHR 0xAA, CHR 0xE8, CHR 0xBE, CHR 0x93, CHR 0xE5, CHR 0x87, CHR 0xBA]
     @ '' chat '' @ [CHR 0xE6, CHR 0x88, CHR 0x96] @ '' query_data''
     @ [CHR 0xEF, CHR 0xBC, CHR 0x8C, CHR 0xE4, CHR 0xB8, CHR 0x8D, CHR 0xE8, CHR 0xA6, CHR 0x81, CHR 0xE5, CHR 0xA4, CHR 0x9A, CHR 0xE4, CHR 0xBD, CHR 0x99, CHR 0xE8, CHR 0xA7, CHR 0xA3]
     @ [CHR 0xE9, CHR 0x87, CHR 0x8A, CHR 0xE3, CHR 0x80, CHR 0x82]"

text \<open>The format string of the Text-to-SQL prompt, cut at its two \<open>%s\<close>.\<close>

definition generatePromptHead :: string where
  "generatePromptHead =
     [CHR 0xE4, CHR 0xBD, CHR 0xA0, CHR 0xE6, CHR 0x98, CHR 0xAF, CHR 0xE4, CHR 0xB8, CHR 0x80, CHR 0xE4, CHR 0xB8, CHR 0xAA]
     @ '' Text-to-SQL ''
     @ [CHR 0xE5, CHR 0x8A, CHR 0xA9, CHR 0xE6, CHR 0x89, CHR 0x8B, CHR 0xE3, CHR 0x80, CHR 0x82, CHR 0xE8, CHR 0xAF, CHR 0xB7, CHR 0xE6, CHR 0xA0, CHR 0xB9, CHR 0xE6, CHR 0x8D, CHR 0xAE]
     @ [CHR 0xE7, CHR 0xBB, CHR 0x99, CHR 0xE5, CHR 0xAE, CHR 0x9A, CHR 0xE7, CHR 0x9A, CHR 0x84, CHR 0xE6, CHR 0x95, CHR 0xB0, CHR 0xE6, CHR 0x8D, CHR 0xAE, CHR 0xE5, CHR 0xBA, CHR 0x93]
     @ [CHR 0xE7, CHR 0xBB, CHR 0x93, CHR 0xE6, CHR 0x9E, CHR 0x84] @ '' (DDL) ''
     @ [CHR 0xE5, CHR 0x92, CHR 0x8C, CHR 0xE7, CHR 0x94, CHR 0xA8, CHR 0xE6, CHR 0x88, CHR 0xB7, CHR 0xE9, CHR 0x97, CHR 0xAE, CHR 0xE9, CHR 0xA2, CHR 0x98, CHR 0xEF, CHR 0xBC, CHR 0x8C]
     @ [CHR 0xE7, CHR 0x94, CHR 0x9F, CHR 0xE6, CHR 0x88, CHR 0x90, CHR 0xE4, CHR 0xB8, CHR 0x80, CHR 0xE4, CHR 0xB8, CHR 0xAA, CHR 0xE5, CHR 0x8F, CHR 0xAA, CHR 0xE8, CHR 0xAF, CHR 0xBB]
     @ [CHR 0xE3, CHR 0x80, CHR 0x81, CHR 0xE5, CHR 0xAE, CHR 0x89, CHR 0xE5, CHR 0x85, CHR 0xA8, CHR 0xE7, CHR 0x9A, CHR 0x84]
     @ '' SQL''
     @ [CHR 0xE3, CHR 0x80, CHR 0x82, CHR 0x0A, CHR 0xE8, CHR 0xA6, CHR 0x81, CHR 0xE6, CHR 0xB1, CHR 0x82, CHR 0xEF, CHR 0xBC, CHR 0x9A, CHR 0x0A]
     @ ''- ''
     @ [CHR 0xE5, CHR 0x8F, CHR 0xAA, CHR 0xE7, CHR 0x94, CHR 0x9F, CHR 0xE6, CHR 0x88, CHR 0x90, CHR 0xE5, CHR 0x8D, CHR 0x95, CHR 0xE6, CHR 0x9D, CHR 0xA1]
     @ '' SELECT ''
     @ [CHR 0xE8, CHR 0xAF, CHR 0xAD, CHR 0xE5, CHR 0x8F, CHR 0xA5, CHR 0xEF, CHR 0xBC, CHR 0x8C, CHR 0xE4, CHR 0xB8, CHR 0x8D, CHR 0xE8, CHR 0xA6, CHR 0x81, CHR 0xE5, CHR 0x8C, CHR 0x85]
     @ [CHR 0xE5, CHR 0x90, CHR 0xAB, CHR 0xE4, CHR 0xBB, CHR 0xBB, CHR 0xE4, CHR 0xBD, CHR 0x95, CHR 0xE5, CHR 0x85, CHR 0xB6, CHR 0xE5, CHR 0xAE, CHR 0x83, CHR 0xE5, CHR 0x86, CHR 0x85]
     @ [CHR 0xE5, CHR 0xAE, CHR 0xB9, CHR 0xEF, CHR 0xBC, CHR 0x88, CHR 0xE4, CHR 0xB8, CHR 0x8D, CHR 0xE8, CHR 0xA6, CHR 0x81, CHR 0xE5, CHR 0x8C, CHR 0x85, CHR 0xE5, CHR 0x90, CHR 0xAB]
     @ [CHR 0xE6, CHR 0xB3, CHR 0xA8, CHR 0xE9, CHR 0x87, CHR 0x8A, CHR 0xE3, CHR 0x80, CHR 0x81, CHR 0xE8, CHR 0xA7, CHR 0xA3, CHR 0xE9, CHR 0x87, CHR 0x8A, CHR 0xE3, CHR 0x80, CHR 0x81]
     @ [CHR 0xE5, CHR 0x88, CHR 0x86, CHR 0xE5, CHR 0x8F, CHR 0xB7, CHR 0xEF, CHR 0xBC, CHR 0x89, CHR 0xE3, CHR 0x80, CHR 0x82, CHR 0x0A]
     @ ''- ''
     @ [CHR 0xE6, CHR 0xA0, CHR 0xB9, CHR 0xE6, CHR 0x8D, CHR 0xAE, CHR 0xE6, CHR 0x95, CHR 0xB0, CHR 0xE6, CHR 0x8D, CHR 0xAE, CHR 0xE5, CHR 0xBA, CHR 0x93, CHR 0xE7, CHR 0xB1, CHR 0xBB]
     @ [CHR 0xE5, CHR 0x9E, CHR 0x8B, CHR 0xE4, CHR 0xB8, CHR 0xBA] @ '' sqlite ''
     @ [CHR 0xE6, CHR 0x9D, CHR 0xA5, CHR 0xE7, CHR 0x94, CHR 0x9F, CHR 0xE6, CHR 0x88, CHR 0x90, CHR 0xEF, CHR 0xBC, CHR 0x9B, CHR 0xE6, CHR 0xB3, CHR 0xA8, CHR 0xE6, CHR 0x84, CHR 0x8F]
     @ [CHR 0xE5, CHR 0x8D, CHR 0xA1, CHR 0xE7, CHR 0x89, CHR 0x87, CHR 0xE5, CHR 0xB1, CHR 0x9E, CHR 0xE6, CHR 0x80, CHR 0xA7, CHR 0xE4, CHR 0xBD, CHR 0x8D, CHR 0xE4, CHR 0xBA, CHR 0x8E]
     @ '' blocks.fields.properties ''
     @ [CHR 0xE4, CHR 0xB8, CHR 0x8B, CHR 0xEF, CHR 0xBC, CHR 0x8C, CHR 0xE9, CHR 0x94, CHR 0xAE, CHR 0xE4, CHR 0xB8, CHR 0xBA, CHR 0xE5, CHR 0x8A, CHR 0xA8, CHR 0xE6, CHR 0x80, CHR 0x81]
     @ [CHR 0xE5, CHR 0xB1, CHR 0x9E, CHR 0xE6, CHR 0x80, CHR 0xA7] @ ''ID''
     @ [CHR 0xEF, CHR 0xBC, CHR 0x8C, CHR 0xE4, CHR 0xBE, CHR 0x8B, CHR 0xE5, CHR 0xA6, CHR 0x82, CHR 0xE4, CHR 0xBD, CHR 0xBF, CHR 0xE7, CHR 0x94, CHR 0xA8]
     @ '' json_extract(fields, '$.properties.<propID>') ''
     @ [CHR 0xE8, CHR 0xAE, CHR 0xBF, CHR 0xE9, CHR 0x97, CHR 0xAE, CHR 0xE3, CHR 0x80, CHR 0x82, CHR 0x0A]
     @ ''- ''
     @ [CHR 0xE5, CHR 0xBF, CHR 0x85, CHR 0xE9, CHR 0xA1, CHR 0xBB, CHR 0xE5, CHR 0x8C, CHR 0x85, CHR 0xE5, CHR 0x90, CHR 0xAB, CHR 0xE5, CHR 0xAF, CHR 0xB9, CHR 0xE7, CHR 0x94, CHR 0xA8]
     @ [CHR 0xE6, CHR 0x88, CHR 0xB7] @ '' user_id ''
     @ [CHR 0xE7, CHR 0x9A, CHR 0x84, CHR 0xE7, CHR 0xBA, CHR 0xA6, CHR 0xE6, CHR 0x9D, CHR 0x9F, CHR 0xEF, CHR 0xBC, CHR 0x9A, CHR 0xE4, CHR 0xBE, CHR 0x8B, CHR 0xE5, CHR 0xA6, CHR 0x82]
     @ [CHR 0xE4, CHR 0xBD, CHR 0xBF, CHR 0xE7, CHR 0x94, CHR 0xA8, CHR 0xE4, CHR 0xBA, CHR 0xBA, CHR 0xE5, CHR 0x91, CHR 0x98, CHR 0xE5, CHR 0xB1, CHR 0x9E, CHR 0xE6, CHR 0x80, CHR 0xA7]
     @ [CHR 0xEF, CHR 0xBC, CHR 0x88] @ ''person '' @ [CHR 0xE6, CHR 0x88, CHR 0x96]
     @ '' multiPerson''
     @ [CHR 0xEF, CHR 0xBC, CHR 0x89, CHR 0xE7, CHR 0xAD, CHR 0x9B, CHR 0xE9, CHR 0x80, CHR 0x89, CHR 0xE5, CHR 0x88, CHR 0x86, CHR 0xE9, CHR 0x85, CHR 0x8D, CHR 0xE7, CHR 0xBB, CHR 0x99]
     @ [CHR 0xE8, CHR 0xAF, CHR 0xA5, CHR 0xE7, CHR 0x94, CHR 0xA8, CHR 0xE6, CHR 0x88, CHR 0xB7, CHR 0xE7, CHR 0x9A, CHR 0x84, CHR 0xE5, CHR 0x8D, CHR 0xA1, CHR 0xE7, CHR 0x89, CHR 0x87]
     @ [CHR 0xE3, CHR 0x80, CHR 0x82, CHR 0x0A] @ ''- ''
     @ [CHR 0xE5, CHR 0xA6, CHR 0x82, CHR 0xE6, CHR 0x9E, CHR 0x9C, CHR 0xE9, CHR 0x97, CHR 0xAE, CHR 0xE9, CHR 0xA2, CHR 0x98, CHR 0xE6, CHR 0xB6, CHR 0x89, CHR 0xE5, CHR 0x8F, CHR 0x8A]
     @ [CHR 0xE7, CHR 0x9C, CHR 0x8B, CHR 0xE6, CHR 0x9D, CHR 0xBF, CHR 0xE6, CHR 0x88, CHR 0x96, CHR 0xE5, CHR 0x8D, CHR 0xA1, CHR 0xE7, CHR 0x89, CHR 0x87, CHR 0xE7, CHR 0xBB, CHR 0x9F]
     @ [CHR 0xE8, CHR 0xAE, CHR 0xA1, CHR 0xEF, CHR 0xBC, CHR 0x8C, CHR 0xE8, CHR 0xAF, CHR 0xB7, CHR 0xE5, CHR 0x90, CHR 0x88, CHR 0xE7, CHR 0x90, CHR 0x86, CHR 0xE8, CHR 0xBF, CHR 0x9E]
     @ [CHR 0xE6, CHR 0x8E, CHR 0xA5] @ '' boards '' @ [CHR 0xE4, CHR 0xB8, CHR 0x8E]
     @ '' blocks'' @ [CHR 0xEF, CHR 0xBC, CHR 0x88] @ ''type='card' ''
     @ [CHR 0xE4, CHR 0xBB, CHR 0xA3, CHR 0xE8, CHR 0xA1, CHR 0xA8, CHR 0xE5, CHR 0x8D, CHR 0xA1, CHR 0xE7, CHR 0x89, CHR 0x87, CHR 0xEF, CHR 0xBC, CHR 0x89, CHR 0xE3, CHR 0x80, CHR 0x82]
     @ [CHR 0x0A] @ ''- ''
     @ [CHR 0xE5, CHR 0xB0, CHR 0xBD, CHR 0xE9, CHR 0x87, CHR 0x8F, CHR 0xE5, CHR 0x8F, CHR 0xAA, CHR 0xE8, CHR 0xBF, CHR 0x94, CHR 0xE5, CHR 0x9B, CHR 0x9E, CHR 0xE5, CHR 0xBF, CHR 0x85]
     @ [CHR 0xE8, CHR 0xA6, CHR 0x81, CHR 0xE7, CHR 0x9A, CHR 0x84, CHR 0xE5, CHR 0xAD, CHR 0x97, CHR 0xE6, CHR 0xAE, CHR 0xB5, CHR 0xEF, CHR 0xBC, CHR 0x9A, CHR 0xE4, CHR 0xBE, CHR 0x8B]
     @ [CHR 0xE5, CHR 0xA6, CHR 0x82, CHR 0xE5, CHR 0x8D, CHR 0xA1, CHR 0xE7, CHR 0x89, CHR 0x87]
     @ '' id'' @ [CHR 0xE3, CHR 0x80, CHR 0x81] @ ''title'' @ [CHR 0xE3, CHR 0x80, CHR 0x81]
     @ ''board_id''
     @ [CHR 0xE3, CHR 0x80, CHR 0x81, CHR 0xE7, CHR 0x8A, CHR 0xB6, CHR 0xE6, CHR 0x80, CHR 0x81, CHR 0xE3, CHR 0x80, CHR 0x81, CHR 0xE5, CHR 0x88, CHR 0xB0, CHR 0xE6, CHR 0x9C, CHR 0x9F]
     @ [CHR 0xE6, CHR 0x97, CHR 0xB6, CHR 0xE9, CHR 0x97, CHR 0xB4, CHR 0xE3, CHR 0x80, CHR 0x81, CHR 0xE6, CHR 0x9B, CHR 0xB4, CHR 0xE6, CHR 0x96, CHR 0xB0, CHR 0xE6, CHR 0x97, CHR 0xB6]
     @ [CHR 0xE9, CHR 0x97, CHR 0xB4, CHR 0xE7, CHR 0xAD, CHR 0x89, CHR 0xE3, CHR 0x80, CHR 0x82, CHR 0x0A]
     @ ''- '' @ [CHR 0xE7, CHR 0xA1, CHR 0xAE, CHR 0xE4, CHR 0xBF, CHR 0x9D] @ '' WHERE ''
     @ [CHR 0xE5, CHR 0xAD, CHR 0x90, CHR 0xE5, CHR 0x8F, CHR 0xA5, CHR 0xE5, CHR 0x8F, CHR 0xAA, CHR 0xE8, CHR 0xAF, CHR 0xBB, CHR 0xE5, CHR 0xAE, CHR 0x89, CHR 0xE5, CHR 0x85, CHR 0xA8]
     @ [CHR 0xEF, CHR 0xBC, CHR 0x8C, CHR 0xE4, CHR 0xB8, CHR 0x8D, CHR 0xE8, CHR 0xA6, CHR 0x81, CHR 0xE4, CHR 0xBD, CHR 0xBF, CHR 0xE7, CHR 0x94, CHR 0xA8, CHR 0xE5, CHR 0xAD, CHR 0x90]
     @ [CHR 0xE6, CHR 0x9F, CHR 0xA5, CHR 0xE8, CHR 0xAF, CHR 0xA2, CHR 0xE5, CHR 0x8E, CHR 0xBB, CHR 0xE4, CHR 0xBF, CHR 0xAE, CHR 0xE6, CHR 0x94, CHR 0xB9, CHR 0xE6, CHR 0x95, CHR 0xB0]
     @ [CHR 0xE6, CHR 0x8D, CHR 0xAE, CHR 0xE3, CHR 0x80, CHR 0x82, CHR 0x0A, CHR 0x0A, CHR 0xE6, CHR 0x95, CHR 0xB0, CHR 0xE6, CHR 0x8D, CHR 0xAE, CHR 0xE5, CHR 0xBA, CHR 0x93, CHR 0xE7]
     @ [CHR 0xBB, CHR 0x93, CHR 0xE6, CHR 0x9E, CHR 0x84, CHR 0xEF, CHR 0xBC, CHR 0x88]
     @ ''DDL'' @ [CHR 0xEF, CHR 0xBC, CHR 0x89, CHR 0xEF, CHR 0xBC, CHR 0x9A, CHR 0x0A]"

definition generatePromptMid :: string where
  "generatePromptMid =
     [CHR 0x0A, CHR 0x0A, CHR 0xE7, CHR 0x94, CHR 0xA8, CHR 0xE6, CHR 0x88, CHR 0xB7, CHR 0xE9, CHR 0x97, CHR 0xAE, CHR 0xE9, CHR 0xA2, CHR 0x98, CHR 0xEF, CHR 0xBC, CHR 0x9A, CHR 0x0A]"

definition generatePromptTail :: string where
  "generatePromptTail =
     [CHR 0x0A, CHR 0x0A, CHR 0xE5, CHR 0x8F, CHR 0xAA, CHR 0xE8, CHR 0xBE, CHR 0x93, CHR 0xE5, CHR 0x87, CHR 0xBA, CHR 0xE6, CHR 0x9C, CHR 0x80, CHR 0xE7, CHR 0xBB, CHR 0x88]
     @ '' SQL''
     @ [CHR 0xEF, CHR 0xBC, CHR 0x88, CHR 0xE4, CHR 0xBB, CHR 0x85, CHR 0xE4, CHR 0xB8, CHR 0x80, CHR 0xE8, CHR 0xA1, CHR 0x8C]
     @ '' SELECT ''
     @ [CHR 0xE5, CHR 0xBC, CHR 0x80, CHR 0xE5, CHR 0xA4, CHR 0xB4, CHR 0xE7, CHR 0x9A, CHR 0x84, CHR 0xE8, CHR 0xAF, CHR 0xAD, CHR 0xE5, CHR 0x8F, CHR 0xA5, CHR 0xEF, CHR 0xBC, CHR 0x89]
     @ [CHR 0xEF, CHR 0xBC, CHR 0x8C, CHR 0xE4, CHR 0xB8, CHR 0x8D, CHR 0xE8, CHR 0xA6, CHR 0x81, CHR 0xE4, CHR 0xBB, CHR 0xBB, CHR 0xE4, CHR 0xBD, CHR 0x95, CHR 0xE5, CHR 0x85, CHR 0xB6]
     @ [CHR 0xE5, CHR 0xAE, CHR 0x83, CHR 0xE6, CHR 0x96, CHR 0x87, CHR 0xE5, CHR 0xAD, CHR 0x97, CHR 0xE3, CHR 0x80, CHR 0x82]"

text \<open>The fixed preamble of the final prompt, and the texts around the question and the
  data.\<close>

definition finalPromptRules :: string where
  "finalPromptRules =
     [CHR 0xE4, CHR 0xBD, CHR 0xA0, CHR 0xE6, CHR 0x98, CHR 0xAF, CHR 0xE4, CHR 0xB8, CHR 0x80, CHR 0xE4, CHR 0xB8, CHR 0xAA]
     @ '' Focal Board ''
     @ [CHR 0xE4, CHR 0xBB, CHR 0xBB, CHR 0xE5, CHR 0x8A, CHR 0xA1, CHR 0xE5, CHR 0x8A, CHR 0xA9, CHR 0xE6, CHR 0x89, CHR 0x8B, CHR 0xE3, CHR 0x80, CHR 0x82, CHR 0xE8, CHR 0xAF, CHR 0xB7]
     @ [CHR 0xE6, CHR 0xA0, CHR 0xB9, CHR 0xE6, CHR 0x8D, CHR 0xAE, CHR 0xE6, CHR 0x88, CHR 0x91, CHR 0xE6, CHR 0x8F, CHR 0x90, CHR 0xE4, CHR 0xBE, CHR 0x9B, CHR 0xE7, CHR 0x9A, CHR 0x84]
     @ '' JSON ''
     @ [CHR 0xE5, CHR 0xAE, CHR 0x9E, CHR 0xE6, CHR 0x97, CHR 0xB6, CHR 0xE6, CHR 0x95, CHR 0xB0, CHR 0xE6, CHR 0x8D, CHR 0xAE, CHR 0xEF, CHR 0xBC, CHR 0x8C, CHR 0xE4, CHR 0xB8, CHR 0xBA]
     @ [CHR 0xE7, CHR 0x94, CHR 0xA8, CHR 0xE6, CHR 0x88, CHR 0xB7, CHR 0xE7, CHR 0x94, CHR 0x9F, CHR 0xE6, CHR 0x88, CHR 0x90, CHR 0xE4, CHR 0xB8, CHR 0x80, CHR 0xE4, CHR 0xBB, CHR 0xBD]
     @ [CHR 0xE7, CHR 0xAE, CHR 0x80, CHR 0xE7, CHR 0x9F, CHR 0xAD, CHR 0xE3, CHR 0x80, CHR 0x81, CHR 0xE5, CHR 0x8F, CHR 0x8B, CHR 0xE5, CHR 0xA5, CHR 0xBD, CHR 0xE3, CHR 0x80, CHR 0x81]
     @ [CHR 0xE6, CHR 0x98, CHR 0x93, CHR 0xE4, CHR 0xBA, CHR 0x8E, CHR 0xE9, CHR 0x98, CHR 0x85, CHR 0xE8, CHR 0xAF, CHR 0xBB, CHR 0xE7, CHR 0x9A, CHR 0x84, CHR 0xE4, CHR 0xB8, CHR 0xAD]
     @ [CHR 0xE6, CHR 0x96, CHR 0x87, CHR 0xE4, CHR 0xBB, CHR 0xBB, CHR 0xE5, CHR 0x8A, CHR 0xA1, CHR 0xE6, CHR 0x80, CHR 0xBB, CHR 0xE7, CHR 0xBB, CHR 0x93, CHR 0xE3, CHR 0x80, CHR 0x82]
     @ [CHR 0x0A, CHR 0x0A, CHR 0xE3, CHR 0x80, CHR 0x90, CHR 0xE9, CHR 0x87, CHR 0x8D, CHR 0xE8, CHR 0xA6, CHR 0x81, CHR 0xE8, CHR 0xA7, CHR 0x84, CHR 0xE5, CHR 0x88, CHR 0x99, CHR 0xE3]
     @ [CHR 0x80, CHR 0x91] @ '':'' @ [CHR 0x0A] @ ''1. **''
     @ [CHR 0xE4, CHR 0xB8, CHR 0x8D, CHR 0xE8, CHR 0xA6, CHR 0x81] @ ''**''
     @ [CHR 0xE5, CHR 0xA4, CHR 0x8D, CHR 0xE8, CHR 0xBF, CHR 0xB0, CHR 0xE6, CHR 0x88, CHR 0x96, CHR 0xE6, CHR 0x89, CHR 0x93, CHR 0xE5, CHR 0x8D, CHR 0xB0, CHR 0xE5, CHR 0x8E, CHR 0x9F]
     @ [CHR 0xE5, CHR 0xA7, CHR 0x8B, CHR 0xE7, CHR 0x9A, CHR 0x84] @ '' JSON ''
     @ [CHR 0xE6, CHR 0x95, CHR 0xB0, CHR 0xE6, CHR 0x8D, CHR 0xAE, CHR 0xE3, CHR 0x80, CHR 0x82, CHR 0x0A]
     @ ''2. **'' @ [CHR 0xE7, CHR 0x9B, CHR 0xB4, CHR 0xE6, CHR 0x8E, CHR 0xA5] @ ''**''
     @ [CHR 0xE5, CHR 0xBC, CHR 0x80, CHR 0xE5, CHR 0xA7, CHR 0x8B, CHR 0xE4, CHR 0xBD, CHR 0xA0, CHR 0xE7, CHR 0x9A, CHR 0x84, CHR 0xE6, CHR 0x80, CHR 0xBB, CHR 0xE7, CHR 0xBB, CHR 0x93]
     @ [CHR 0xE6, CHR 0x80, CHR 0xA7, CHR 0xE5, CHR 0x9B, CHR 0x9E, CHR 0xE7, CHR 0xAD, CHR 0x94]
     @ '' (''
     @ [CHR 0xE4, CHR 0xBE, CHR 0x8B, CHR 0xE5, CHR 0xA6, CHR 0x82, CHR 0xEF, CHR 0xBC, CHR 0x9A, CHR 0x27, CHR 0xE4, CHR 0xBD, CHR 0xA0, CHR 0xE5, CHR 0xA5, CHR 0xBD, CHR 0xEF, CHR 0xBC]
     @ [CHR 0x81, CHR 0xE6, CHR 0xA0, CHR 0xB9, CHR 0xE6, CHR 0x8D, CHR 0xAE, CHR 0xE4, CHR 0xBD, CHR 0xA0, CHR 0xE7, CHR 0x9A, CHR 0x84, CHR 0xE4, CHR 0xBB, CHR 0xBB, CHR 0xE5, CHR 0x8A]
     @ [CHR 0xA1, CHR 0xE6, CHR 0x83, CHR 0x85, CHR 0xE5, CHR 0x86, CHR 0xB5] @ ''...')''
     @ [CHR 0xE3, CHR 0x80, CHR 0x82, CHR 0x0A] @ ''3. ''
     @ [CHR 0xE4, CHR 0xBD, CHR 0xBF, CHR 0xE7, CHR 0x94, CHR 0xA8, CHR 0xE8, CHR 0xA1, CHR 0xA8, CHR 0xE6, CHR 0x83, CHR 0x85, CHR 0xE7, CHR 0xAC, CHR 0xA6, CHR 0xE5, CHR 0x8F, CHR 0xB7]
     @ '' ('' @ [CHR 0xE2, CHR 0x9C, CHR 0x85] @ '', ''
     @ [CHR 0xF0, CHR 0x9F, CHR 0x9A, CHR 0x80] @ '') ''
     @ [CHR 0xE6, CHR 0x9D, CHR 0xA5, CHR 0xE7, CHR 0xBB, CHR 0x84, CHR 0xE7, CHR 0xBB, CHR 0x87, CHR 0xE4, CHR 0xBD, CHR 0xA0, CHR 0xE7, CHR 0x9A, CHR 0x84, CHR 0xE5, CHR 0x9B, CHR 0x9E]
     @ [CHR 0xE7, CHR 0xAD, CHR 0x94, CHR 0xE3, CHR 0x80, CHR 0x82, CHR 0x0A] @ ''4. ''
     @ [CHR 0xE5, CHR 0xA6, CHR 0x82, CHR 0xE6, CHR 0x9E, CHR 0x9C, CHR 0xE6, CHR 0x95, CHR 0xB0, CHR 0xE6, CHR 0x8D, CHR 0xAE, CHR 0xE4, CHR 0xB8, CHR 0xAD, CHR 0xE6, CHR 0x9C, CHR 0x89]
     @ [CHR 0xE9, CHR 0x80, CHR 0xBE, CHR 0xE6, CHR 0x9C, CHR 0x9F, CHR 0xE7, CHR 0x9A, CHR 0x84, CHR 0xE4, CHR 0xBB, CHR 0xBB, CHR 0xE5, CHR 0x8A, CHR 0xA1, CHR 0xEF, CHR 0xBC, CHR 0x8C]
     @ [CHR 0xE8, CHR 0xAF, CHR 0xB7, CHR 0xE6, CHR 0x98, CHR 0x8E, CHR 0xE7, CHR 0xA1, CHR 0xAE, CHR 0xE6, CHR 0x8C, CHR 0x87, CHR 0xE5, CHR 0x87, CHR 0xBA, CHR 0xE3, CHR 0x80, CHR 0x82]
     @ [CHR 0x0A, CHR 0x0A]"

definition finalPromptQuestion :: string where
  "finalPromptQuestion =
     [CHR 0xE7, CHR 0x94, CHR 0xA8, CHR 0xE6, CHR 0x88, CHR 0xB7, CHR 0xE9, CHR 0x97, CHR 0xAE, CHR 0xE9, CHR 0xA2, CHR 0x98]
     @ '': '' @ [CHR 0x22]"

definition finalPromptData :: string where
  "finalPromptData =
     [CHR 0x22, CHR 0x0A, CHR 0x0A, CHR 0xE5, CHR 0xAE, CHR 0x9E, CHR 0xE6, CHR 0x97, CHR 0xB6, CHR 0xE6, CHR 0x95, CHR 0xB0, CHR 0xE6, CHR 0x8D, CHR 0xAE]
     @ '' (JSON '' @ [CHR 0xE6, CHR 0xA0, CHR 0xBC, CHR 0xE5, CHR 0xBC, CHR 0x8F] @ ''):''
     @ [CHR 0x0A]"

definition finalPromptAnswer :: string where
  "finalPromptAnswer =
     [CHR 0x0A, CHR 0x0A, CHR 0xE4, CHR 0xBD, CHR 0xA0, CHR 0xE7, CHR 0x9A, CHR 0x84, CHR 0xE5, CHR 0x9B, CHR 0x9E, CHR 0xE7, CHR 0xAD, CHR 0x94]
     @ '' (''
     @ [CHR 0xE8, CHR 0xAF, CHR 0xB7, CHR 0xE7, CHR 0x9B, CHR 0xB4, CHR 0xE6, CHR 0x8E, CHR 0xA5, CHR 0xE5, CHR 0xBC, CHR 0x80, CHR 0xE5, CHR 0xA7, CHR 0x8B, CHR 0xE6, CHR 0x80, CHR 0xBB]
     @ [CHR 0xE7, CHR 0xBB, CHR 0x93] @ ''):'' @ [CHR 0x0A]"

subsection \<open>The environment and the trace\<close>

text \<open>
  What the service reads from outside is a record of parameters: the case tables of package
  \<open>unicode\<close>, the environment variables, the HTTP exchange with the model
  (\<open>httpDo apiKey model prompt\<close> is a transport error or the status and the body of the
  response), the JSON decoding of a response body into the contents of its choices, the
  outcome of \<open>discoverPropertyCatalog\<close>, the configured database type, and the database
  (\<open>dbQuery n query\<close> is the outcome of the \<open>n\<close>-th query of the invocation: an error, or
  the rows serialized by \<open>json.Marshal\<close>).

  A \<open>propCatalog\<close> holds the map \<open>StatusPropOptions\<close> as the list of its entries in the order
  a \<open>range\<close> loop visits them; the inner map is only looked up.
\<close>

record propCatalog =
  PersonPropIDs :: "string list"
  MultiPersonPropIDs :: "string list"
  StatusPropOptions :: "(string \<times> (string \<Rightarrow> string option)) list"
  DatePropIDs :: "string list"

record env =
  toLowerTable :: "rune \<Rightarrow> rune"
  toUpperTable :: "rune \<Rightarrow> rune"
  getenvAPIKey :: string
  getenvModel :: string
  httpDo :: "string \<Rightarrow> string \<Rightarrow> string \<Rightarrow> string + nat \<times> string"
  decodeChoices :: "string \<Rightarrow> string + string list"
  discoverPropertyCatalog :: "string + propCatalog"
  cfgDBType :: string
  dbQuery :: "nat \<Rightarrow> string \<Rightarrow> string + string"

text \<open>The trace of an invocation records, in order, every call of \<open>callQwenInternal\<close>
  (with the prompt), of \<open>validateReadOnlySQL\<close> (with the statement and the result) and of
  \<open>executeQuery\<close> (with the statement). Log output is not modelled.\<close>

datatype event =
    CallQwen string
  | Validate string "error option"
  | ExecuteQuery string

type_synonym trace = "event list"

subsection \<open>\<open>callQwenInternal\<close>\<close>

text \<open>The request is built from constants and cannot fail; the body of an error response is
  read up to 4 MiB.\<close>

definition callQwenInternal :: "env \<Rightarrow> string \<Rightarrow> trace \<Rightarrow> (error + string) \<times> trace" where
  "callQwenInternal e prompt tr =
     (let tr' = tr @ [CallQwen prompt];
          apiKey = strings_TrimSpace (getenvAPIKey e)
      in
      if apiKey = [] then (Inl ErrAPIKeyNotSet, tr')
      else
        let model0 = strings_TrimSpace (getenvModel e);
            model = (if model0 = [] then ''qwen-plus'' else model0)
        in
        (case httpDo e apiKey model prompt of
           Inl msg \<Rightarrow> (Inl (ErrExternal msg), tr')
         | Inr (status, body) \<Rightarrow>
             if status \<noteq> 200 then (Inl (ErrQwenAPI status (take 4194304 body)), tr')
             else
               (case decodeChoices e body of
                  Inl msg \<Rightarrow> (Inl (ErrExternal msg), tr')
                | Inr [] \<Rightarrow> (Inl ErrQwenEmptyChoice, tr')
                | Inr (c # cs) \<Rightarrow> (Inr c, tr'))))"

subsection \<open>\<open>classifyIntent\<close>\<close>

definition classifyKeys :: "string list" where
  "classifyKeys =
     [txtQuery, txtDaiban, txtInProgress, txtNotDone, txtDone, txtAlreadyDone, txtOverdue,
      txtExpired, txtDeadline, txtDue]"

definition classifyPrompt :: "string \<Rightarrow> string" where
  "classifyPrompt question = classifyPromptHead @ question @ classifyPromptTail"

text \<open>The two keyword rules of the classifier, on the lower-cased, trimmed question.\<close>

definition myTasksRule :: "string \<Rightarrow> bool" where
  "myTasksRule q =
     (strings_Contains q txtQueryMyTasks \<or> strings_Contains q txtMyTasks
      \<or> (strings_Contains q txtTask \<and> strings_Contains q txtMe))"

definition keyAndTaskRule :: "string \<Rightarrow> bool" where
  "keyAndTaskRule q =
     (let hasKey = list_ex (\<lambda>k. strings_Contains q k) classifyKeys
      in hasKey \<and> strings_Contains q txtTask)"

definition classifyIntent :: "env \<Rightarrow> string \<Rightarrow> trace \<Rightarrow> (error + string) \<times> trace" where
  "classifyIntent e question tr =
     (let q = strings_ToLower (toLowerTable e) (strings_TrimSpace question) in
      if myTasksRule q then (Inr intentQueryData, tr)
      else if keyAndTaskRule q then (Inr intentQueryData, tr)
      else
        (case callQwenInternal e (classifyPrompt question) tr of
           (Inl err, tr') \<Rightarrow> (Inl err, tr')
         | (Inr out, tr') \<Rightarrow>
             let ans = strings_ToLower (toLowerTable e) (strings_TrimSpace out) in
             if strings_Contains ans intentQueryData then (Inr intentQueryData, tr')
             else if strings_Contains ans intentChat then (Inr intentChat, tr')
             else (Inr intentChat, tr')))"

subsection \<open>The clause builders\<close>

definition buildAssigneeClause :: "string \<Rightarrow> propCatalog option \<Rightarrow> string" where
  "buildAssigneeClause userID cat =
     (case cat of
        None \<Rightarrow> []
      | Some c \<Rightarrow>
          if PersonPropIDs c = [] \<and> MultiPersonPropIDs c = [] then []
          else
            let parts =
                  map (\<lambda>pid. ''json_extract(fields, '$.properties.'' @ pid @ ([CHR 0x27] @ '') = '' @ [CHR 0x27])
                              @ userID @ [CHR 0x27])
                      (PersonPropIDs c)
                  @ map (\<lambda>pid. ''EXISTS (SELECT 1 FROM json_each(json_extract(fields, '$.properties.''
                                @ pid @ ([CHR 0x27] @ '')) WHERE value = '' @ [CHR 0x27]) @ userID @ ([CHR 0x27] @ '')''))
                        (MultiPersonPropIDs c)
            in '' AND ('' @ strings_Join parts '' OR '' @ '')'')"

definition doneSyn :: "string list" where
  "doneSyn = [txtAlreadyDone, txtDone, ''DONE'']"

definition progSyn :: "string list" where
  "progSyn = [txtInProgress, txtProcessing, ''IN PROGRESS'']"

text \<open>The inner loop of the three status builders: the quoted identifiers of the options
  whose upper-cased label is one of the synonyms, in the order of the synonyms.\<close>

definition quotedOptionIDs ::
    "(rune \<Rightarrow> rune) \<Rightarrow> string list \<Rightarrow> (string \<Rightarrow> string option) \<Rightarrow> string list" where
  "quotedOptionIDs tbl syn opts =
     concat (map (\<lambda>v. case opts (strings_ToUpper tbl v) of
                         Some oid \<Rightarrow> [[CHR 0x27] @ oid @ [CHR 0x27]]
                       | None \<Rightarrow> [])
                 syn)"

definition buildStatusOpenClause :: "(rune \<Rightarrow> rune) \<Rightarrow> propCatalog option \<Rightarrow> string" where
  "buildStatusOpenClause tbl cat =
     (case cat of
        None \<Rightarrow> []
      | Some c \<Rightarrow>
          if StatusPropOptions c = [] then []
          else
            let parts =
                  map (\<lambda>(sid, opts).
                         let doneIDs = quotedOptionIDs tbl doneSyn opts in
                         if doneIDs \<noteq> [] then
                           ''(json_extract(fields, '$.properties.'' @ sid @ ([CHR 0x27] @ '') NOT IN ('')
                           @ strings_Join doneIDs '',''
                           @ '') OR json_extract(fields, '$.properties.'' @ sid
                           @ ([CHR 0x27] @ '') IS NULL)'')
                         else
                           ''(json_extract(fields, '$.properties.'' @ sid @ ([CHR 0x27] @ '') IS NULL)''))
                      (StatusPropOptions c)
            in '' AND ('' @ strings_Join parts '' OR '' @ '')'')"

definition buildStatusDoneClause :: "(rune \<Rightarrow> rune) \<Rightarrow> propCatalog option \<Rightarrow> string" where
  "buildStatusDoneClause tbl cat =
     (case cat of
        None \<Rightarrow> []
      | Some c \<Rightarrow>
          if StatusPropOptions c = [] then []
          else
            let parts =
                  concat (map (\<lambda>(sid, opts).
                         let doneIDs = quotedOptionIDs tbl doneSyn opts in
                         if doneIDs \<noteq> [] then
                           [''json_extract(fields, '$.properties.'' @ sid @ ([CHR 0x27] @ '') IN ('')
                            @ strings_Join doneIDs '','' @ '')'']
                         else [])
                      (StatusPropOptions c))
            in if parts = [] then []
               else '' AND ('' @ strings_Join parts '' OR '' @ '')'')"

definition buildStatusProgressClause :: "(rune \<Rightarrow> rune) \<Rightarrow> propCatalog option \<Rightarrow> string" where
  "buildStatusProgressClause tbl cat =
     (case cat of
        None \<Rightarrow> []
      | Some c \<Rightarrow>
          if StatusPropOptions c = [] then []
          else
            let parts =
                  concat (map (\<lambda>(sid, opts).
                         let ids = quotedOptionIDs tbl progSyn opts in
                         if ids \<noteq> [] then
                           [''json_extract(fields, '$.properties.'' @ sid @ ([CHR 0x27] @ '') IN ('')
                            @ strings_Join ids '','' @ '')'']
                         else [])
                      (StatusPropOptions c))
            in if parts = [] then []
               else '' AND ('' @ strings_Join parts '' OR '' @ '')'')"

definition buildOverdueClause :: "(rune \<Rightarrow> rune) \<Rightarrow> propCatalog option \<Rightarrow> string" where
  "buildOverdueClause tbl cat =
     (let parts =
            (case cat of
               None \<Rightarrow> []
             | Some c \<Rightarrow>
                 map (\<lambda>did. ''(json_extract(json_extract(fields, '$.properties.'' @ did
                             @ ([CHR 0x27] @ ''), '$.from') IS NOT NULL AND json_extract(json_extract(fields, '$.properties.'')
                             @ did @ ([CHR 0x27] @ ''), '$.from') < (strftime('%s','now')*1000))''))
                     (DatePropIDs c));
          clause = (if parts \<noteq> [] then '' AND ('' @ strings_Join parts '' OR '' @ '')''
                    else [])
      in clause @ buildStatusOpenClause tbl cat)"

subsection \<open>\<open>extractSQL\<close>\<close>

text \<open>
  The regular expression of \<open>extractSQL\<close> is a fence \<open>```sql\<close>, white space
  (\<open>\s\<close> is \<open>[\t\n\f\r ]\<close>), then the group: \<open>SELECT\<close> and the shortest text up to the
  next fence. \<open>FindStringSubmatch\<close> takes the leftmost position where all of it matches.
\<close>

definition fence :: string where
  "fence = [CHR 0x60, CHR 0x60, CHR 0x60]"

definition reSpace :: "char \<Rightarrow> bool" where
  "reSpace c = (c = CHR 0x09 \<or> c = CHR 0x0A \<or> c = CHR 0x0C \<or> c = CHR 0x0D \<or> c = CHR 0x20)"

text \<open>The text before the first fence, if there is a fence.\<close>

fun upToFence :: "string \<Rightarrow> string option" where
  "upToFence [] = None"
| "upToFence (c # cs) =
     (if strings_HasPrefix (c # cs) fence then Some []
      else (case upToFence cs of None \<Rightarrow> None | Some body \<Rightarrow> Some (c # body)))"

definition fencedAt :: "string \<Rightarrow> string option" where
  "fencedAt s =
     (if strings_HasPrefix s (fence @ ''sql'') then
        (let r = dropWhile reSpace (drop 6 s) in
         if strings_HasPrefix r ''SELECT'' then
           (case upToFence (drop 6 r) of
              None \<Rightarrow> None
            | Some body \<Rightarrow> Some (''SELECT'' @ body))
         else None)
      else None)"

fun findFenced :: "string \<Rightarrow> string option" where
  "findFenced [] = None"
| "findFenced (c # cs) =
     (case fencedAt (c # cs) of
        Some m \<Rightarrow> Some m
      | None \<Rightarrow> findFenced cs)"

definition extractSQL :: "(rune \<Rightarrow> rune) \<Rightarrow> string \<Rightarrow> string" where
  "extractSQL tbl text =
     (case findFenced text of
        Some m \<Rightarrow> strings_TrimSpace m
      | None \<Rightarrow>
          (case find (\<lambda>ln. strings_HasPrefix (strings_ToUpper tbl ln) ''SELECT'')
                     (map strings_TrimSpace (strings_Split1 text (CHR 0x0A))) of
             Some ln \<Rightarrow> strings_TrimRight1 ln (CHR '';'')
           | None \<Rightarrow> strings_TrimRight1 text (CHR '';'')))"

subsection \<open>\<open>generateSQL\<close>\<close>

definition sqlSelectCards :: string where
  "sqlSelectCards =
     ''SELECT id, title, board_id, fields, update_at FROM blocks WHERE type='card' AND delete_at=0 ''"

definition sqlOrderLimit :: string where
  "sqlOrderLimit = '' ORDER BY update_at DESC LIMIT 50''"

text \<open>\<open>fmt.Sprintf\<close> is given three arguments for a format with two \<open>%s\<close>: the user
  identifier fills the first, the schema the second, and the question is appended as an
  extra argument.\<close>

definition generatePrompt :: "string \<Rightarrow> string \<Rightarrow> string \<Rightarrow> string" where
  "generatePrompt schema userID question =
     generatePromptHead @ userID @ generatePromptMid @ schema @ generatePromptTail
     @ ''%!(EXTRA string='' @ question @ '')''"

text \<open>The end of every branch of \<open>generateSQL\<close>: the statement is validated and returned,
  or the validation error is.\<close>

definition validateAndReturn :: "env \<Rightarrow> string \<Rightarrow> trace \<Rightarrow> (error + string) \<times> trace" where
  "validateAndReturn e sqlText tr =
     (let r = validateReadOnlySQL (toUpperTable e) sqlText;
          tr' = tr @ [Validate sqlText r]
      in case r of
           Some err \<Rightarrow> (Inl err, tr')
         | None \<Rightarrow> (Inr sqlText, tr'))"

definition generateSQL ::
    "env \<Rightarrow> string \<Rightarrow> string \<Rightarrow> string \<Rightarrow> trace \<Rightarrow> (error + string) \<times> trace" where
  "generateSQL e schema userID question tr =
     (let catalog = (case discoverPropertyCatalog e of Inl err \<Rightarrow> None | Inr c \<Rightarrow> Some c);
          ut = toUpperTable e;
          q = strings_ToLower (toLowerTable e) (strings_TrimSpace question)
      in
      if myTasksRule q then
        validateAndReturn e
          (sqlSelectCards @ buildAssigneeClause userID catalog @ sqlOrderLimit) tr
      else if strings_Contains q txtDaiban \<or> strings_Contains q txtNotDone
              \<or> strings_Contains q txtTodo then
        validateAndReturn e
          (sqlSelectCards @ buildAssigneeClause userID catalog
           @ buildStatusOpenClause ut catalog @ sqlOrderLimit) tr
      else if strings_Contains q txtAlreadyDone
              \<or> (strings_Contains q txtDone \<and> \<not> strings_Contains q txtNotDone) then
        validateAndReturn e
          (sqlSelectCards @ buildAssigneeClause userID catalog
           @ buildStatusDoneClause ut catalog @ sqlOrderLimit) tr
      else if strings_Contains q txtInProgress then
        validateAndReturn e
          (sqlSelectCards @ buildAssigneeClause userID catalog
           @ buildStatusProgressClause ut catalog @ sqlOrderLimit) tr
      else if strings_Contains q txtOverdue \<or> strings_Contains q txtExpired
              \<or> strings_Contains q txtPastDeadline \<or> strings_Contains q txtDeadlinePassed
              \<or> strings_Contains q txtAlreadyExpired then
        validateAndReturn e
          (sqlSelectCards @ buildAssigneeClause userID catalog
           @ buildOverdueClause ut catalog @ sqlOrderLimit) tr
      else
        (case callQwenInternal e (generatePrompt schema userID question) tr of
           (Inl err, tr') \<Rightarrow> (Inl err, tr')
         | (Inr out, tr') \<Rightarrow>
             validateAndReturn e (extractSQL ut (strings_TrimSpace out)) tr'))"

subsection \<open>\<open>executeQuery\<close>, \<open>buildFinalPrompt\<close> and \<open>PrepareRAGResponse\<close>\<close>

text \<open>\<open>executeQuery e n query\<close> is the \<open>n\<close>-th query of the invocation. Opening the
  database, running the statement, reading the rows and serializing them are the database's
  part (\<open>dbQuery\<close>).\<close>

definition executeQuery :: "env \<Rightarrow> nat \<Rightarrow> string \<Rightarrow> trace \<Rightarrow> (error + string) \<times> trace" where
  "executeQuery e n query tr =
     (let tr' = tr @ [ExecuteQuery query] in
      if strings_ToLower (toLowerTable e) (cfgDBType e) \<noteq> ''sqlite3''
      then (Inl ErrUnsupportedDBType, tr')
      else (case dbQuery e n query of
              Inl msg \<Rightarrow> (Inl (ErrExternal msg), tr')
            | Inr json \<Rightarrow> (Inr json, tr')))"

definition buildFinalPrompt :: "string \<Rightarrow> string \<Rightarrow> string" where
  "buildFinalPrompt question contextData =
     finalPromptRules @ finalPromptQuestion @ question @ finalPromptData @ contextData
     @ finalPromptAnswer"

definition fallbackSQL :: string where
  "fallbackSQL =
     ''SELECT id, title, board_id, fields, update_at FROM blocks WHERE type='card' AND delete_at=0 ORDER BY update_at DESC LIMIT 50''"

definition PrepareRAGResponse :: "env \<Rightarrow> string \<Rightarrow> string \<Rightarrow> (error + string) \<times> trace" where
  "PrepareRAGResponse e userID question =
     (case classifyIntent e question [] of
        (Inl err, tr1) \<Rightarrow> (Inl err, tr1)
      | (Inr intent, tr1) \<Rightarrow>
          if intent = intentChat then (Inl ErrIntentIsChat, tr1)
          else if intent \<noteq> intentQueryData then (Inl ErrUnknownIntent, tr1)
          else
            (case generateSQL e ragSchemaDDL userID question tr1 of
               (Inl err, tr2) \<Rightarrow> (Inl err, tr2)
             | (Inr sqlText, tr2) \<Rightarrow>
                 (case executeQuery e 0 sqlText tr2 of
                    (Inl err, tr3) \<Rightarrow> (Inl err, tr3)
                  | (Inr contextJSON, tr3) \<Rightarrow>
                      if strings_TrimSpace contextJSON = ''[]'' then
                        (case executeQuery e 1 fallbackSQL tr3 of
                           (Inr fbJSON, tr4) \<Rightarrow> (Inr (buildFinalPrompt question fbJSON), tr4)
                         | (Inl fbErr, tr4) \<Rightarrow>
                             (Inr (buildFinalPrompt question contextJSON), tr4))
                      else (Inr (buildFinalPrompt question contextJSON), tr3))))"

section \<open>The streaming relay (\<open>handleAIChatStream\<close>)\<close>

text \<open>
  The part of the handler from the scanner over the response body to the last flush. The
  upstream is the list of lines the scanner yields before \<open>Scan\<close> returns false, and how it
  ended (\<open>scanner.Err()\<close>). \<open>json.Unmarshal\<close> of the payload of a line is a parameter: it
  fails (\<open>None\<close>) or yields the choices of the \<open>OpenAIResponse\<close>. The outbound stream is the
  list of the chunks written, each one marshalled and flushed by the handler.
\<close>

record AIStreamChunk =
  Content :: string
  Done :: bool

record choice =
  DeltaContent :: string
  MessageContent :: string
  FinishReason :: string

datatype scanEnd = EndOfStream | ReadError string

fun relayLoop :: "(string \<Rightarrow> choice list option) \<Rightarrow> string list \<Rightarrow> AIStreamChunk list" where
  "relayLoop unmarshal [] = []"
| "relayLoop unmarshal (line # lines) =
     (if strings_HasPrefix line ''data: '' then
        (let data = drop 6 line in
         if data = ''[DONE]'' then []
         else
           (case unmarshal data of
              None \<Rightarrow> relayLoop unmarshal lines
            | Some [] \<Rightarrow> relayLoop unmarshal lines
            | Some (c # cs) \<Rightarrow>
                (if DeltaContent c \<noteq> [] then [\<lparr>Content = DeltaContent c, Done = False\<rparr>] else [])
                @ (if FinishReason c \<noteq> [] then [] else relayLoop unmarshal lines)))
      else relayLoop unmarshal lines)"

definition finalChunk :: AIStreamChunk where
  "finalChunk = \<lparr>Content = [], Done = True\<rparr>"

definition relayStream ::
    "(string \<Rightarrow> choice list option) \<Rightarrow> string list \<Rightarrow> scanEnd \<Rightarrow> AIStreamChunk list" where
  "relayStream unmarshal lines ending = relayLoop unmarshal lines @ [finalChunk]"

section \<open>Notions of the specification\<close>

text \<open>The specification speaks of a text that starts with a word, contains a substring, and
  contains a keyword as a whole word: an occurrence with no word character right before it
  and none right after it.\<close>

definition startsWith :: "string \<Rightarrow> string \<Rightarrow> bool" where
  "startsWith s p = (\<exists>rest. s = p @ rest)"

definition containsSubstring :: "string \<Rightarrow> string \<Rightarrow> bool" where
  "containsSubstring s sub = (\<exists>pre post. s = pre @ sub @ post)"

definition containsWholeWord :: "string \<Rightarrow> string \<Rightarrow> bool" where
  "containsWholeWord s kw =
     (\<exists>pre post. s = pre @ kw @ post
        \<and> (pre = [] \<or> \<not> isWordChar (last pre))
        \<and> (post = [] \<or> \<not> isWordChar (hd post)))"

definition upperTrimmed :: "(rune \<Rightarrow> rune) \<Rightarrow> string \<Rightarrow> string" where
  "upperTrimmed tbl s = strings_ToUpper tbl (strings_TrimSpace s)"

definition exampleSelect :: string where
  "exampleSelect = ''SELECT id, title FROM blocks WHERE type='card'' @ [CHR 0x27]"

text \<open>The claim about the validator speaks of the input string. A keyword occurs in a string
  in any letter case, between ASCII characters that are not word characters (or at an end of
  the string), when the string splits as follows.\<close>

definition asciiNonWord :: "char \<Rightarrow> bool" where
  "asciiNonWord c = ((of_char c :: nat) < RuneSelf \<and> \<not> isWordChar c)"

definition containsKeywordAnyCase :: "string \<Rightarrow> string \<Rightarrow> bool" where
  "containsKeywordAnyCase s kw =
     (\<exists>pre w post. s = pre @ w @ post \<and> map asciiUpper w = kw
        \<and> (pre = [] \<or> asciiNonWord (last pre))
        \<and> (post = [] \<or> asciiNonWord (hd post)))"

text \<open>A case table that agrees with Go's at U+017F (Latin small letter long s, whose upper
  case is \<open>S\<close>) and is the identity elsewhere, and a statement in which that letter stands
  right before the keyword \<open>DROP\<close>.\<close>

definition upperTableLongS :: "rune \<Rightarrow> rune" where
  "upperTableLongS r = (if r = 0x17F then 0x53 else r)"

definition sqlLongSDrop :: string where
  "sqlLongSDrop = ''SELECT 1 FROM t WHERE '' @ [CHR 0xC5, CHR 0xBF] @ ''DROP TABLE boards''"

text \<open>
  The relay in the words of the specification. A line stops the relay when it is the
  termination marker or carries a populated finish reason; the text delta of a line is the
  non-empty content of the delta of its first choice; the lines read are those up to and
  including the first line that stops the relay.
\<close>

definition stopsRelay :: "(string \<Rightarrow> choice list option) \<Rightarrow> string \<Rightarrow> bool" where
  "stopsRelay unmarshal line =
     (strings_HasPrefix line ''data: ''
      \<and> (drop 6 line = ''[DONE]''
           \<or> (case unmarshal (drop 6 line) of
                 Some (c # cs) \<Rightarrow> FinishReason c \<noteq> []
               | _ \<Rightarrow> False)))"

definition textDelta :: "(string \<Rightarrow> choice list option) \<Rightarrow> string \<Rightarrow> string option" where
  "textDelta unmarshal line =
     (if strings_HasPrefix line ''data: '' \<and> drop 6 line \<noteq> ''[DONE]'' then
        (case unmarshal (drop 6 line) of
           Some (c # cs) \<Rightarrow> if DeltaContent c \<noteq> [] then Some (DeltaContent c) else None
         | _ \<Rightarrow> None)
      else None)"

fun linesRead :: "(string \<Rightarrow> choice list option) \<Rightarrow> string list \<Rightarrow> string list" where
  "linesRead unmarshal [] = []"
| "linesRead unmarshal (l # ls) =
     (if stopsRelay unmarshal l then [l] else l # linesRead unmarshal ls)"

definition contentChunk :: "string \<Rightarrow> AIStreamChunk" where
  "contentChunk c = \<lparr>Content = c, Done = False\<rparr>"

text \<open>A small decoder of payloads, to run the relay on a concrete upstream: \<open>stop\<close> is an
  event with a finish reason and no content, \<open>bad\<close> does not parse, any other payload is a
  delta with itself as content.\<close>

definition demoUnmarshal :: "string \<Rightarrow> choice list option" where
  "demoUnmarshal data =
     (if data = ''stop'' then Some [\<lparr>DeltaContent = [], MessageContent = [], FinishReason = ''stop''\<rparr>]
      else if data = ''bad'' then None
      else Some [\<lparr>DeltaContent = data, MessageContent = [], FinishReason = []\<rparr>])"

section \<open>Notions used in the proofs\<close>

text \<open>A byte that can start the encoding of a white-space rune: an ASCII white-space
  character, or the lead byte of U+0085, U+00A0, U+1680, U+2000 to U+205F or U+3000.\<close>

definition spaceStartByte :: "char \<Rightarrow> bool" where
  "spaceStartByte c =
     (asciiSpace (of_char c) \<or> (of_char c :: nat) = 0xC2 \<or> (of_char c :: nat) = 0xE1
      \<or> (of_char c :: nat) = 0xE2 \<or> (of_char c :: nat) = 0xE3)"

text \<open>A text survives trimming when it starts with a byte that starts a rune and none of
  its bytes can start a white-space rune: no white-space rune trimmed from either end of a
  string can overlap an occurrence of it.\<close>

definition survivesTrim :: "string \<Rightarrow> bool" where
  "survivesTrim W = (W \<noteq> [] \<and> RuneStart (hd W) \<and> (\<forall>c \<in> set W. \<not> spaceStartByte c))"

text \<open>Where \<open>TrimRightFunc\<close> cuts: after the rune that starts at the index found.\<close>

definition endOfRune :: "string \<Rightarrow> nat \<Rightarrow> nat" where
  "endOfRune S i =
     (if RuneSelf \<le> (of_char (S ! i) :: nat) then i + snd (DecodeRuneInString (drop i S))
      else i + 1)"

text \<open>The case tables of package \<open>unicode\<close> have no mapping for the CJK unified
  ideographs U+4E00 to U+9FFF: a property of the missing tables, assumed where a claim is
  about Chinese text.\<close>

definition caselessCJK :: "(rune \<Rightarrow> rune) \<Rightarrow> bool" where
  "caselessCJK tbl = (\<forall>r. 0x4E00 \<le> r \<and> r \<le> 0x9FFF \<longrightarrow> tbl r = r)"

text \<open>An environment to run the service on: identity case tables, an API key and no network,
  a catalog with the one person property \<open>assignee\<close>, and a database whose first query
  returns no rows and whose second returns one.\<close>

definition demoCatalog :: propCatalog where
  "demoCatalog = \<lparr>PersonPropIDs = [''assignee''], MultiPersonPropIDs = [],
                   StatusPropOptions = [], DatePropIDs = []\<rparr>"

definition demoEnv :: env where
  "demoEnv = \<lparr>toLowerTable = (\<lambda>r. r), toUpperTable = (\<lambda>r. r),
               getenvAPIKey = ''key'', getenvModel = [],
               httpDo = (\<lambda>apiKey model prompt. Inl ''no network''),
               decodeChoices = (\<lambda>body. Inl ''no body''),
               discoverPropertyCatalog = Inr demoCatalog,
               cfgDBType = ''sqlite3'',
               dbQuery = (\<lambda>n query. if n = 0 then Inr ''[]'' else Inr ''[1]'')\<rparr>"

section \<open>Notions about a run of the pipeline\<close>

text \<open>The errors that come from the call of the model (the missing key, the status, the
  empty list of choices, the libraries), and the errors of the validator.\<close>

fun libraryError :: "error \<Rightarrow> bool" where
  "libraryError ErrAPIKeyNotSet = True"
| "libraryError (ErrQwenAPI status body) = True"
| "libraryError ErrQwenEmptyChoice = True"
| "libraryError (ErrExternal msg) = True"
| "libraryError err = False"

fun validationError :: "error \<Rightarrow> bool" where
  "validationError ErrGeneratedSQLEmpty = True"
| "validationError (ErrGeneratedSQLNotSelect sql) = True"
| "validationError (ErrGeneratedSQLForbidden kw) = True"
| "validationError (ErrGeneratedSQLChars c) = True"
| "validationError err = False"

text \<open>\<open>everyQueryValidated ok tr\<close>: every statement executed in the trace \<open>tr\<close> is one of
  \<open>ok\<close>, or was validated with no error earlier in the trace.\<close>

fun everyQueryValidated :: "string list \<Rightarrow> trace \<Rightarrow> bool" where
  "everyQueryValidated ok [] = True"
| "everyQueryValidated ok (Validate sql r # tr) =
     everyQueryValidated (if r = None then sql # ok else ok) tr"
| "everyQueryValidated ok (ExecuteQuery sql # tr) = (sql \<in> set ok \<and> everyQueryValidated ok tr)"
| "everyQueryValidated ok (CallQwen prompt # tr) = everyQueryValidated ok tr"

text \<open>The events that are calls of the model, and the statements executed in a trace, in
  order.\<close>

definition isCallQwen :: "event \<Rightarrow> bool" where
  "isCallQwen ev = (case ev of CallQwen prompt \<Rightarrow> True | _ \<Rightarrow> False)"

definition executed :: "trace \<Rightarrow> string list" where
  "executed tr = concat (map (\<lambda>ev. case ev of ExecuteQuery sql \<Rightarrow> [sql] | _ \<Rightarrow> []) tr)"

text \<open>The statement of the first template for the user \<open>u1\<close> and the one person property
  \<open>assignee\<close>.\<close>

definition demoSQL :: string where
  "demoSQL =
     ''SELECT id, title, board_id, fields, update_at FROM blocks WHERE type='card' AND delete_at=0  AND (json_extract(fields, '$.properties.assignee') = 'u1''
     @ [CHR 0x27] @ '') ORDER BY update_at DESC LIMIT 50''"


section \<open>The string functions meet their descriptions\<close>

lemma strings_HasPrefix_iff: "strings_HasPrefix s p = startsWith s p"
  unfolding startsWith_def
  by (induction s p rule: strings_HasPrefix.induct) auto

lemma strings_HasPrefix_append: "strings_HasPrefix (p @ rest) p"
  by (simp add: strings_HasPrefix_iff startsWith_def)

lemma strings_Contains_iff: "strings_Contains s sub = containsSubstring s sub"
proof (induction s)
  case Nil
  show ?case by (auto simp: containsSubstring_def)
next
  case (Cons c cs)
  have "containsSubstring (c # cs) sub \<longleftrightarrow> startsWith (c # cs) sub \<or> containsSubstring cs sub"
  proof
    assume "containsSubstring (c # cs) sub"
    then obtain pre post where e: "c # cs = pre @ sub @ post"
      unfolding containsSubstring_def by blast
    show "startsWith (c # cs) sub \<or> containsSubstring cs sub"
    proof (cases pre)
      case Nil
      with e show ?thesis by (auto simp: startsWith_def)
    next
      case (Cons a pre')
      with e have "cs = pre' @ sub @ post" by simp
      then show ?thesis unfolding containsSubstring_def by blast
    qed
  next
    assume "startsWith (c # cs) sub \<or> containsSubstring cs sub"
    then show "containsSubstring (c # cs) sub"
    proof
      assume "startsWith (c # cs) sub"
      then obtain rest where "c # cs = [] @ sub @ rest" unfolding startsWith_def by auto
      then show ?thesis unfolding containsSubstring_def by blast
    next
      assume "containsSubstring cs sub"
      then obtain pre post where "cs = pre @ sub @ post" unfolding containsSubstring_def by blast
      then have "c # cs = (c # pre) @ sub @ post" by simp
      then show ?thesis unfolding containsSubstring_def by blast
    qed
  qed
  with Cons show ?case by (simp add: strings_HasPrefix_iff)
qed

lemma wordEndsAt_iff: "wordEndsAt r = (r = [] \<or> \<not> isWordChar (hd r))"
  by (cases r) (simp_all add: wordEndsAt_def)

lemma matchWordFrom_iff:
  assumes "kw \<noteq> []"
  shows "matchWordFrom kw pw s =
     (\<exists>pre post. s = pre @ kw @ post
        \<and> (if pre = [] then \<not> pw else \<not> isWordChar (last pre))
        \<and> (post = [] \<or> \<not> isWordChar (hd post)))"
proof (induction s arbitrary: pw)
  case Nil
  with assms show ?case by simp
next
  case (Cons c cs)
  let ?here = "\<not> pw \<and> strings_HasPrefix (c # cs) kw \<and> wordEndsAt (drop (length kw) (c # cs))"
  let ?R = "\<lambda>pw s. \<exists>pre post. s = pre @ kw @ post
        \<and> (if pre = [] then \<not> pw else \<not> isWordChar (last pre))
        \<and> (post = [] \<or> \<not> isWordChar (hd post))"
  have here: "?here \<longleftrightarrow> (\<exists>post. c # cs = kw @ post \<and> \<not> pw \<and> (post = [] \<or> \<not> isWordChar (hd post)))"
  proof
    assume h: ?here
    then obtain rest where r: "c # cs = kw @ rest"
      by (auto simp: strings_HasPrefix_iff startsWith_def)
    then have "drop (length kw) (c # cs) = rest" by simp
    with h r show "\<exists>post. c # cs = kw @ post \<and> \<not> pw \<and> (post = [] \<or> \<not> isWordChar (hd post))"
      by (auto simp: wordEndsAt_iff)
  next
    assume "\<exists>post. c # cs = kw @ post \<and> \<not> pw \<and> (post = [] \<or> \<not> isWordChar (hd post))"
    then obtain post where r: "c # cs = kw @ post" and "\<not> pw"
      and a: "post = [] \<or> \<not> isWordChar (hd post)" by blast
    from r have "drop (length kw) (c # cs) = post" by simp
    with r a \<open>\<not> pw\<close> show ?here
      by (simp add: strings_HasPrefix_append wordEndsAt_iff)
  qed
  have "?R pw (c # cs) \<longleftrightarrow> ?here \<or> ?R (isWordChar c) cs"
  proof
    assume "?R pw (c # cs)"
    then obtain pre post where e: "c # cs = pre @ kw @ post"
      and b: "if pre = [] then \<not> pw else \<not> isWordChar (last pre)"
      and a: "post = [] \<or> \<not> isWordChar (hd post)" by blast
    show "?here \<or> ?R (isWordChar c) cs"
    proof (cases pre)
      case Nil
      with e b a have "\<exists>post. c # cs = kw @ post \<and> \<not> pw \<and> (post = [] \<or> \<not> isWordChar (hd post))"
        by auto
      with here show ?thesis by blast
    next
      case (Cons x pre')
      with e have c: "x = c" and cs: "cs = pre' @ kw @ post" by simp_all
      from b Cons c have "if pre' = [] then \<not> isWordChar c else \<not> isWordChar (last pre')"
        by (auto split: if_splits)
      with cs a have "?R (isWordChar c) cs" by blast
      then show ?thesis by blast
    qed
  next
    assume "?here \<or> ?R (isWordChar c) cs"
    then show "?R pw (c # cs)"
    proof
      assume ?here
      with here obtain post where "c # cs = [] @ kw @ post" "\<not> pw" "post = [] \<or> \<not> isWordChar (hd post)"
        by auto
      then show ?thesis by (intro exI [of _ "[]"] exI [of _ post]) simp
    next
      assume "?R (isWordChar c) cs"
      then obtain pre post where cs: "cs = pre @ kw @ post"
        and b: "if pre = [] then \<not> isWordChar c else \<not> isWordChar (last pre)"
        and a: "post = [] \<or> \<not> isWordChar (hd post)" by blast
      from cs b a show ?thesis
        by (intro exI [of _ "c # pre"] exI [of _ post]) (auto split: if_splits)
    qed
  qed
  with Cons.IH [of "isWordChar c"] show ?case by simp
qed

lemma regexp_MatchWord_iff:
  "kw \<noteq> [] \<Longrightarrow> regexp_MatchWord kw s = containsWholeWord s kw"
proof -
  assume kw: "kw \<noteq> []"
  have "\<And>pre. (if pre = [] then \<not> False else \<not> isWordChar (last pre))
           = (pre = [] \<or> \<not> isWordChar (last pre))" by simp
  then show ?thesis
    unfolding regexp_MatchWord_def containsWholeWord_def matchWordFrom_iff [OF kw]
    by simp
qed

lemma forbiddenKeywords_nonempty: "kw \<in> set forbiddenKeywords \<Longrightarrow> kw \<noteq> []"
  by (auto simp: forbiddenKeywords_def)

lemma find_cong_set: "(\<And>x. x \<in> set xs \<Longrightarrow> P x = Q x) \<Longrightarrow> find P xs = find Q xs"
  by (induction xs) auto

lemma validateReadOnlySQL_eq:
  "validateReadOnlySQL tbl s =
     (if s = [] then Some ErrGeneratedSQLEmpty
      else if \<not> startsWith (upperTrimmed tbl s) ''SELECT'' then Some (ErrGeneratedSQLNotSelect s)
      else (case find (containsWholeWord (upperTrimmed tbl s)) forbiddenKeywords of
              Some kw \<Rightarrow> Some (ErrGeneratedSQLForbidden kw)
            | None \<Rightarrow>
                (case find (containsSubstring (upperTrimmed tbl s)) forbiddenChars of
                   Some c \<Rightarrow> Some (ErrGeneratedSQLChars c)
                 | None \<Rightarrow> None)))"
proof -
  have k: "find (\<lambda>kw. regexp_MatchWord kw (upperTrimmed tbl s)) forbiddenKeywords
         = find (containsWholeWord (upperTrimmed tbl s)) forbiddenKeywords"
    by (rule find_cong_set) (simp add: regexp_MatchWord_iff forbiddenKeywords_nonempty)
  have c: "find (\<lambda>kw. strings_Contains (upperTrimmed tbl s) kw) forbiddenChars
         = find (containsSubstring (upperTrimmed tbl s)) forbiddenChars"
    by (rule find_cong_set) (simp add: strings_Contains_iff)
  show ?thesis
    unfolding validateReadOnlySQL_def Let_def upperTrimmed_def [symmetric] k c
    by (simp add: strings_HasPrefix_iff)
qed

lemma exampleSelect_accepted: "validateReadOnlySQL tbl exampleSelect = None"
  unfolding exampleSelect_def by code_simp

section \<open>The relay loop\<close>

lemma relayLoop_eq:
  "relayLoop u lines = map contentChunk (List.map_filter (textDelta u) (linesRead u lines))"
proof (induction lines)
  case Nil
  show ?case by simp
next
  case (Cons l ls)
  show ?case
  proof (cases "strings_HasPrefix l ''data: ''")
    case False
    with Cons show ?thesis
      by (simp add: stopsRelay_def textDelta_def)
  next
    case True
    show ?thesis
    proof (cases "drop 6 l = ''[DONE]''")
      case d: True
      with True show ?thesis
        by (simp add: stopsRelay_def textDelta_def)
    next
      case d: False
      show ?thesis
      proof (cases "u (drop 6 l)")
        case None
        with True d Cons show ?thesis
          by (simp add: stopsRelay_def textDelta_def)
      next
        case (Some chs)
        show ?thesis
        proof (cases chs)
          case Nil
          with Some True d Cons show ?thesis
            by (simp add: stopsRelay_def textDelta_def)
        next
          case (Cons c cs)
          with Some True d Cons.IH show ?thesis
            by (simp add: stopsRelay_def textDelta_def contentChunk_def)
        qed
      qed
    qed
  qed
qed

lemma filter_Done_contentChunk: "filter Done (map contentChunk cs) = []"
  by (induction cs) (simp_all add: contentChunk_def)

section \<open>Decoding UTF-8\<close>

text \<open>The decoder by the class of the first byte: ASCII, invalid, and the lead bytes of two,
  three and four byte encodings.\<close>

lemma Decode_width_1: "DecodeRuneInString [c] = (r, w) \<Longrightarrow> w = 1"
  by (auto simp: Let_def split: if_splits)

lemma Decode_shape:
  assumes "DecodeRuneInString t = (r, w)" and "t \<noteq> []"
  shows "1 \<le> w \<and> w \<le> length t \<and> (\<forall>c \<in> set (take (w - 1) (tl t)). \<not> RuneStart c)"
proof -
  from assms(2) obtain c0 cs where t: "t = c0 # cs" by (cases t) auto
  show ?thesis
  proof (cases cs)
    case Nil
    with assms(1) t show ?thesis by (auto simp: Let_def split: if_splits)
  next
    case c1: (Cons c1 cs1)
    show ?thesis
    proof (cases cs1)
      case Nil
      with assms(1) t c1 show ?thesis
        by (auto simp: Let_def RuneStart_def split: if_splits)
    next
      case c2: (Cons c2 cs2)
      show ?thesis
      proof (cases cs2)
        case Nil
        with assms(1) t c1 c2 show ?thesis
          by (auto simp: Let_def RuneStart_def split: if_splits)
      next
        case c3: (Cons c3 cs3)
        with assms(1) t c1 c2 show ?thesis
          by (auto simp: Let_def RuneStart_def split: if_splits)
      qed
    qed
  qed
qed

lemma mod_window:
  fixes a m q :: nat
  assumes "q * m \<le> a" and "a < q * m + m"
  shows "a mod m = a - q * m"
proof -
  have "a = (a - q * m) + q * m" using assms(1) by simp
  then have "a mod m = ((a - q * m) + q * m) mod m" by simp
  also have "\<dots> = (a - q * m) mod m" by simp
  also have "\<dots> = a - q * m"
  proof -
    have "a - q * m < m" using assms by linarith
    then show ?thesis by simp
  qed
  finally show ?thesis .
qed

lemma cont_mod: "128 \<le> (b::nat) \<Longrightarrow> b \<le> 191 \<Longrightarrow> b mod 64 = b - 128"
  using mod_window [of 2 64 b] by simp

lemma space2:
  fixes a b :: nat
  assumes "194 \<le> a" "a < 224" "128 \<le> b" "b \<le> 191"
    and "unicode_IsSpace (a mod 32 * 64 + b mod 64)"
  shows "a = 194"
proof -
  have a: "a mod 32 = a - 192" using mod_window [of 6 32 a] assms(1,2) by simp
  have b: "b mod 64 = b - 128" using cont_mod assms(3,4) by simp
  have "(a - 192) * 64 + (b - 128) < 2048" using assms(1-4) by linarith
  with assms(5) have "(a - 192) * 64 + (b - 128) \<in> {9, 10, 11, 12, 13, 32, 133, 160}"
    unfolding a b
    by (auto simp: unicode_IsSpace_def asciiSpace_def split: if_splits)
  with assms(1-4) show ?thesis by auto
qed

lemma space3:
  fixes a b c :: nat
  assumes "224 \<le> a" "a < 240" "128 \<le> b" "b \<le> 191" "a = 224 \<longrightarrow> 160 \<le> b"
    and "128 \<le> c" "c \<le> 191"
    and "unicode_IsSpace (a mod 16 * 4096 + b mod 64 * 64 + c mod 64)"
  shows "a = 225 \<or> a = 226 \<or> a = 227"
proof -
  have a: "a mod 16 = a - 224" using mod_window [of 14 16 a] assms(1,2) by simp
  have b: "b mod 64 = b - 128" using cont_mod assms(3,4) by simp
  have c: "c mod 64 = c - 128" using cont_mod assms(6,7) by simp
  let ?r = "(a - 224) * 4096 + (b - 128) * 64 + (c - 128)"
  from assms(8) have "?r \<le> 255 \<or> (5760 \<le> ?r \<and> ?r \<le> 12288)"
    unfolding a b c by (auto simp: unicode_IsSpace_def split: if_splits)
  moreover have "a = 224 \<longrightarrow> 2048 \<le> ?r \<and> ?r < 4096" using assms(1-7) by linarith
  moreover have "228 \<le> a \<longrightarrow> 16384 \<le> ?r" using assms(1-7) by linarith
  moreover have "225 \<le> a \<longrightarrow> 4096 \<le> ?r" using assms(1-7) by linarith
  ultimately show ?thesis using assms(1,2) by linarith
qed

lemma space4:
  fixes a b c d :: nat
  assumes "240 \<le> a" "a \<le> 244" "128 \<le> b" "b \<le> 191" "a = 240 \<longrightarrow> 144 \<le> b"
  shows "\<not> unicode_IsSpace (a mod 8 * 262144 + b mod 64 * 4096 + c mod 64 * 64 + d mod 64)"
proof -
  have a: "a mod 8 = a - 240" using mod_window [of 30 8 a] assms(1,2) by simp
  have b: "b mod 64 = b - 128" using cont_mod assms(3,4) by simp
  have "65536 \<le> (a - 240) * 262144 + (b - 128) * 4096" using assms by linarith
  then have "65536 \<le> a mod 8 * 262144 + b mod 64 * 4096 + c mod 64 * 64 + d mod 64"
    unfolding a b by linarith
  then show ?thesis by (auto simp: unicode_IsSpace_def split: if_splits)
qed

lemma Decode_ascii:
  "(of_char c0 :: nat) < 128 \<Longrightarrow> DecodeRuneInString (c0 # cs) = (of_char c0, 1)"
  by simp

lemma Decode_invalid:
  "128 \<le> (of_char c0 :: nat) \<Longrightarrow> (of_char c0 :: nat) < 194 \<or> 244 < (of_char c0 :: nat)
     \<Longrightarrow> DecodeRuneInString (c0 # cs) = (RuneError, 1)"
  by auto

lemma Decode_2:
  "194 \<le> (of_char c0 :: nat) \<Longrightarrow> (of_char c0 :: nat) < 224 \<Longrightarrow>
   DecodeRuneInString (c0 # cs) =
     (case cs of
        [] \<Rightarrow> (RuneError, 1)
      | c1 # rest \<Rightarrow>
          if 128 \<le> (of_char c1 :: nat) \<and> (of_char c1 :: nat) \<le> 191
          then (of_char c0 mod 32 * 64 + of_char c1 mod 64, 2) else (RuneError, 1))"
  by (auto simp: Let_def split: list.splits)

lemma Decode_3:
  "224 \<le> (of_char c0 :: nat) \<Longrightarrow> (of_char c0 :: nat) < 240 \<Longrightarrow>
   DecodeRuneInString (c0 # cs) =
     (case cs of
        c1 # c2 # rest \<Rightarrow>
          if (if (of_char c0 :: nat) = 224 then 160 else 128) \<le> (of_char c1 :: nat)
             \<and> (of_char c1 :: nat) \<le> (if (of_char c0 :: nat) = 237 then 159 else 191)
             \<and> 128 \<le> (of_char c2 :: nat) \<and> (of_char c2 :: nat) \<le> 191
          then (of_char c0 mod 16 * 4096 + of_char c1 mod 64 * 64 + of_char c2 mod 64, 3)
          else (RuneError, 1)
      | _ \<Rightarrow> (RuneError, 1))"
  by (auto simp: Let_def split: list.splits)

lemma Decode_4:
  "240 \<le> (of_char c0 :: nat) \<Longrightarrow> (of_char c0 :: nat) \<le> 244 \<Longrightarrow>
   DecodeRuneInString (c0 # cs) =
     (case cs of
        c1 # c2 # c3 # rest \<Rightarrow>
          if (if (of_char c0 :: nat) = 240 then 144 else 128) \<le> (of_char c1 :: nat)
             \<and> (of_char c1 :: nat) \<le> (if (of_char c0 :: nat) = 244 then 143 else 191)
             \<and> 128 \<le> (of_char c2 :: nat) \<and> (of_char c2 :: nat) \<le> 191
             \<and> 128 \<le> (of_char c3 :: nat) \<and> (of_char c3 :: nat) \<le> 191
          then (of_char c0 mod 8 * 262144 + of_char c1 mod 64 * 4096
                + of_char c2 mod 64 * 64 + of_char c3 mod 64, 4)
          else (RuneError, 1)
      | _ \<Rightarrow> (RuneError, 1))"
  by (auto simp: Let_def split: list.splits)

declare DecodeRuneInString.simps(2) [simp del]

lemma Decode_2_valid:
  assumes "194 \<le> (of_char c0 :: nat)" "(of_char c0 :: nat) < 224"
    and "DecodeRuneInString (c0 # cs) = (r, w)" and "(r, w) \<noteq> (RuneError, 1)"
  obtains c1 rest where "cs = c1 # rest"
    and "128 \<le> (of_char c1 :: nat)" "(of_char c1 :: nat) \<le> 191"
    and "r = of_char c0 mod 32 * 64 + of_char c1 mod 64" and "w = 2"
  using assms by (auto simp: Decode_2 split: list.splits if_splits)

lemma Decode_3_valid:
  assumes "224 \<le> (of_char c0 :: nat)" "(of_char c0 :: nat) < 240"
    and "DecodeRuneInString (c0 # cs) = (r, w)" and "(r, w) \<noteq> (RuneError, 1)"
  obtains c1 c2 rest where "cs = c1 # c2 # rest"
    and "128 \<le> (of_char c1 :: nat)" "(of_char c1 :: nat) \<le> 191"
    and "(of_char c0 :: nat) = 224 \<longrightarrow> 160 \<le> (of_char c1 :: nat)"
    and "128 \<le> (of_char c2 :: nat)" "(of_char c2 :: nat) \<le> 191"
    and "r = of_char c0 mod 16 * 4096 + of_char c1 mod 64 * 64 + of_char c2 mod 64" and "w = 3"
proof -
  from assms(3) [unfolded Decode_3 [OF assms(1,2)]] assms(4)
  obtain c1 c2 rest where cs: "cs = c1 # c2 # rest"
    by (cases cs; cases "tl cs") auto
  from assms(3) [unfolded Decode_3 [OF assms(1,2)] cs] assms(4)
  have v: "(if (of_char c0 :: nat) = 224 then 160 else 128) \<le> (of_char c1 :: nat)
             \<and> (of_char c1 :: nat) \<le> (if (of_char c0 :: nat) = 237 then 159 else 191)
             \<and> 128 \<le> (of_char c2 :: nat) \<and> (of_char c2 :: nat) \<le> 191"
    and r: "r = of_char c0 mod 16 * 4096 + of_char c1 mod 64 * 64 + of_char c2 mod 64" "w = 3"
    by (simp_all split: if_splits)
  from v have "128 \<le> (of_char c1 :: nat)" "(of_char c1 :: nat) \<le> 191"
    "(of_char c0 :: nat) = 224 \<longrightarrow> 160 \<le> (of_char c1 :: nat)"
    "128 \<le> (of_char c2 :: nat)" "(of_char c2 :: nat) \<le> 191"
    by (simp_all split: if_splits)
  with cs r that show ?thesis by blast
qed

lemma Decode_4_valid:
  assumes "240 \<le> (of_char c0 :: nat)" "(of_char c0 :: nat) \<le> 244"
    and "DecodeRuneInString (c0 # cs) = (r, w)" and "(r, w) \<noteq> (RuneError, 1)"
  obtains c1 c2 c3 rest where "cs = c1 # c2 # c3 # rest"
    and "128 \<le> (of_char c1 :: nat)" "(of_char c1 :: nat) \<le> 191"
    and "(of_char c0 :: nat) = 240 \<longrightarrow> 144 \<le> (of_char c1 :: nat)"
    and "128 \<le> (of_char c2 :: nat)" "(of_char c2 :: nat) \<le> 191"
    and "128 \<le> (of_char c3 :: nat)" "(of_char c3 :: nat) \<le> 191"
    and "r = of_char c0 mod 8 * 262144 + of_char c1 mod 64 * 4096
              + of_char c2 mod 64 * 64 + of_char c3 mod 64" and "w = 4"
proof -
  from assms(3) [unfolded Decode_4 [OF assms(1,2)]] assms(4)
  obtain c1 c2 c3 rest where cs: "cs = c1 # c2 # c3 # rest"
    by (cases cs; cases "tl cs"; cases "tl (tl cs)") auto
  from assms(3) [unfolded Decode_4 [OF assms(1,2)] cs] assms(4)
  have v: "(if (of_char c0 :: nat) = 240 then 144 else 128) \<le> (of_char c1 :: nat)
             \<and> (of_char c1 :: nat) \<le> (if (of_char c0 :: nat) = 244 then 143 else 191)
             \<and> 128 \<le> (of_char c2 :: nat) \<and> (of_char c2 :: nat) \<le> 191
             \<and> 128 \<le> (of_char c3 :: nat) \<and> (of_char c3 :: nat) \<le> 191"
    and r: "r = of_char c0 mod 8 * 262144 + of_char c1 mod 64 * 4096
              + of_char c2 mod 64 * 64 + of_char c3 mod 64" "w = 4"
    by (simp_all split: if_splits)
  from v have "128 \<le> (of_char c1 :: nat)" "(of_char c1 :: nat) \<le> 191"
    "(of_char c0 :: nat) = 240 \<longrightarrow> 144 \<le> (of_char c1 :: nat)"
    "128 \<le> (of_char c2 :: nat)" "(of_char c2 :: nat) \<le> 191"
    "128 \<le> (of_char c3 :: nat)" "(of_char c3 :: nat) \<le> 191"
    by (simp_all split: if_splits)
  with cs r that show ?thesis by blast
qed

lemma byte_classes:
  fixes b :: nat
  obtains "b < 128" | "128 \<le> b" "b < 194 \<or> 244 < b" | "194 \<le> b" "b < 224"
    | "224 \<le> b" "b < 240" | "240 \<le> b" "b \<le> 244"
  by linarith

lemma RuneError_not_space: "\<not> unicode_IsSpace RuneError"
  by (simp add: unicode_IsSpace_def)

lemma Decode_space_start:
  assumes "DecodeRuneInString t = (r, w)" and "unicode_IsSpace r"
  shows "t \<noteq> [] \<and> spaceStartByte (hd t)"
proof (cases t)
  case Nil
  with assms show ?thesis by (simp add: unicode_IsSpace_def)
next
  case t: (Cons c0 cs)
  from assms(2) RuneError_not_space have ne: "(r, w) \<noteq> (RuneError, 1)" by auto
  have "spaceStartByte c0"
  proof (cases "of_char c0 :: nat" rule: byte_classes)
    case 1
    with assms t show ?thesis
      by (auto simp: Decode_ascii spaceStartByte_def unicode_IsSpace_def split: if_splits)
  next
    case 2
    with assms t RuneError_not_space show ?thesis by (simp add: Decode_invalid)
  next
    case 3
    from Decode_2_valid [OF 3 assms(1) [unfolded t] ne] assms(2) 3
    have "(of_char c0 :: nat) = 194" by (metis space2)
    then show ?thesis by (simp add: spaceStartByte_def)
  next
    case 4
    from Decode_3_valid [OF 4 assms(1) [unfolded t] ne] assms(2) 4
    have "(of_char c0 :: nat) = 225 \<or> (of_char c0 :: nat) = 226 \<or> (of_char c0 :: nat) = 227"
      by (metis space3)
    then show ?thesis by (auto simp: spaceStartByte_def)
  next
    case 5
    from Decode_4_valid [OF 5 assms(1) [unfolded t] ne] assms(2) 5
    show ?thesis by (metis space4)
  qed
  with t show ?thesis by simp
qed

lemma RuneStart_iff: "RuneStart x \<longleftrightarrow> (of_char x :: nat) < 128 \<or> 191 < (of_char x :: nat)"
  by (auto simp: RuneStart_def)

lemma Decode_local_Cons:
  assumes "RuneStart x"
  shows "DecodeRuneInString ((c0 # cs) @ x # bs) = DecodeRuneInString (c0 # cs)"
proof -
  from assms have x: "(of_char x :: nat) < 128 \<or> 191 < (of_char x :: nat)"
    by (simp add: RuneStart_iff)
  show ?thesis
  proof (cases "of_char c0 :: nat" rule: byte_classes)
    case 1
    then show ?thesis by (simp add: Decode_ascii)
  next
    case 2
    then show ?thesis by (simp add: Decode_invalid)
  next
    case 3
    show ?thesis
    proof (cases cs)
      case Nil
      with 3 x show ?thesis by (auto simp: Decode_2)
    next
      case (Cons c1 cs1)
      with 3 show ?thesis by (simp add: Decode_2)
    qed
  next
    case 4
    show ?thesis
    proof (cases cs)
      case Nil
      with 4 x show ?thesis by (cases bs) (auto simp: Decode_3)
    next
      case c1: (Cons c1 cs1)
      show ?thesis
      proof (cases cs1)
        case Nil
        with 4 x c1 show ?thesis by (auto simp: Decode_3)
      next
        case (Cons c2 cs2)
        with 4 c1 show ?thesis by (simp add: Decode_3)
      qed
    qed
  next
    case 5
    show ?thesis
    proof (cases cs)
      case Nil
      with 5 x show ?thesis
        by (cases bs; cases "tl bs") (auto simp: Decode_4)
    next
      case c1: (Cons c1 cs1)
      show ?thesis
      proof (cases cs1)
        case Nil
        with 5 x c1 show ?thesis by (cases bs) (auto simp: Decode_4)
      next
        case c2: (Cons c2 cs2)
        show ?thesis
        proof (cases cs2)
          case Nil
          with 5 x c1 c2 show ?thesis by (auto simp: Decode_4)
        next
          case (Cons c3 cs3)
          with 5 c1 c2 show ?thesis by (simp add: Decode_4)
        qed
      qed
    qed
  qed
qed

lemma Decode_local:
  assumes "b = [] \<or> RuneStart (hd b)"
  shows "DecodeRuneInString ((c0 # cs) @ b) = DecodeRuneInString (c0 # cs)"
proof (cases b)
  case Nil
  then show ?thesis by simp
next
  case (Cons x bs)
  with assms Decode_local_Cons [of x c0 cs bs] show ?thesis by simp
qed

lemma Decode_prefix_1:
  assumes "DecodeRuneInString (c0 # cs) = (r, w)" and "2 \<le> w"
    and 1: "(of_char c0 :: nat) < 128"
  shows "DecodeRuneInString ((c0 # cs) @ b) = (r, w)"
proof -
  from assms(1) have "w = 1" unfolding Decode_ascii [OF 1] by simp
  with assms(2) show ?thesis by simp
qed

lemma Decode_prefix_2:
  assumes "DecodeRuneInString (c0 # cs) = (r, w)" and "2 \<le> w"
    and 2: "128 \<le> (of_char c0 :: nat)" "(of_char c0 :: nat) < 194 \<or> 244 < (of_char c0 :: nat)"
  shows "DecodeRuneInString ((c0 # cs) @ b) = (r, w)"
proof -
  from assms(1) have "w = 1" unfolding Decode_invalid [OF 2] by simp
  with assms(2) show ?thesis by simp
qed

lemma Decode_prefix_3a:
  assumes "DecodeRuneInString (c0 # cs) = (r, w)" and "2 \<le> w"
    and 3: "194 \<le> (of_char c0 :: nat)" "(of_char c0 :: nat) < 224"
  shows "\<exists>c1 rest. cs = c1 # rest"
proof -
  from assms(2) have ne: "(r, w) \<noteq> (RuneError, 1)" by auto
  show ?thesis by (rule Decode_2_valid [OF 3 assms(1) ne]) blast
qed

lemma Decode_prefix_3:
  assumes "DecodeRuneInString (c0 # cs) = (r, w)" and "2 \<le> w"
    and 3: "194 \<le> (of_char c0 :: nat)" "(of_char c0 :: nat) < 224"
  shows "DecodeRuneInString ((c0 # cs) @ b) = (r, w)"
proof -
  from Decode_prefix_3a [OF assms]
  obtain c1 rest where cs: "cs = c1 # rest" by blast
  have "DecodeRuneInString ((c0 # c1 # rest) @ b) = DecodeRuneInString (c0 # c1 # rest)"
    unfolding append_Cons Decode_2 [OF 3] by simp
  with assms(1) show ?thesis unfolding cs by (simp only:)
qed

lemma Decode_prefix_4:
  assumes "DecodeRuneInString (c0 # cs) = (r, w)" and "2 \<le> w"
    and 4: "224 \<le> (of_char c0 :: nat)" "(of_char c0 :: nat) < 240"
  shows "DecodeRuneInString ((c0 # cs) @ b) = (r, w)"
proof -
  from assms(2) have ne: "(r, w) \<noteq> (RuneError, 1)" by auto
  have "\<exists>c1 c2 rest. cs = c1 # c2 # rest"
    by (rule Decode_3_valid [OF 4 assms(1) ne]) blast
  then obtain c1 c2 rest where cs: "cs = c1 # c2 # rest" by blast
  have "DecodeRuneInString ((c0 # c1 # c2 # rest) @ b) = DecodeRuneInString (c0 # c1 # c2 # rest)"
    unfolding append_Cons Decode_3 [OF 4] by simp
  with assms(1) show ?thesis unfolding cs by (simp only:)
qed

lemma Decode_prefix_5:
  assumes "DecodeRuneInString (c0 # cs) = (r, w)" and "2 \<le> w"
    and 5: "240 \<le> (of_char c0 :: nat)" "(of_char c0 :: nat) \<le> 244"
  shows "DecodeRuneInString ((c0 # cs) @ b) = (r, w)"
proof -
  from assms(2) have ne: "(r, w) \<noteq> (RuneError, 1)" by auto
  have "\<exists>c1 c2 c3 rest. cs = c1 # c2 # c3 # rest"
    by (rule Decode_4_valid [OF 5 assms(1) ne]) blast
  then obtain c1 c2 c3 rest where cs: "cs = c1 # c2 # c3 # rest" by blast
  have "DecodeRuneInString ((c0 # c1 # c2 # c3 # rest) @ b)
          = DecodeRuneInString (c0 # c1 # c2 # c3 # rest)"
    unfolding append_Cons Decode_4 [OF 5] by simp
  with assms(1) show ?thesis unfolding cs by (simp only:)
qed

lemma Decode_prefix:
  assumes "DecodeRuneInString a = (r, w)" and "2 \<le> w"
  shows "DecodeRuneInString (a @ b) = (r, w)"
proof (cases a)
  case Nil
  with assms show ?thesis by simp
next
  case a: (Cons c0 cs)
  show ?thesis
    unfolding a
    by (cases "of_char c0 :: nat" rule: byte_classes)
       (rule Decode_prefix_1 Decode_prefix_2 Decode_prefix_3 Decode_prefix_4 Decode_prefix_5,
        rule assms(1) [unfolded a], rule assms(2), assumption+)+
qed

section \<open>Mapping the runes of a string\<close>

lemma strings_Map_append:
  assumes "b = [] \<or> RuneStart (hd b)"
  shows "strings_Map f (a @ b) = strings_Map f a @ strings_Map f b"
proof (induction f a rule: strings_Map.induct)
  case (1 f)
  show ?case by simp
next
  case (2 f c cs)
  obtain r w where d: "DecodeRuneInString (c # cs) = (r, w)"
    by (cases "DecodeRuneInString (c # cs)")
  from Decode_shape [OF d] have "w \<le> length (c # cs)" by simp
  then have w: "w - 1 \<le> length cs" by simp
  have d': "DecodeRuneInString (c # cs @ b) = (r, w)"
    using Decode_local [OF assms, of c cs] d by simp
  from 2 [OF d [symmetric] refl]
  have ih: "strings_Map f (drop (w - 1) cs @ b) = strings_Map f (drop (w - 1) cs) @ strings_Map f b" .
  from w have "drop (w - 1) (cs @ b) = drop (w - 1) cs @ b" by simp
  with ih d d' show ?case by simp
qed

lemma encode_6211: "encodeRune 0x6211 = [CHR 0xE6, CHR 0x88, CHR 0x91]"
  by (simp add: encodeRune_def char_of_eq_iff take_bit_eq_mod)

lemma encode_7684: "encodeRune 0x7684 = [CHR 0xE7, CHR 0x9A, CHR 0x84]"
  by (simp add: encodeRune_def char_of_eq_iff take_bit_eq_mod)

lemma encode_4EFB: "encodeRune 0x4EFB = [CHR 0xE4, CHR 0xBB, CHR 0xBB]"
  by (simp add: encodeRune_def char_of_eq_iff take_bit_eq_mod)

lemma encode_52A1: "encodeRune 0x52A1 = [CHR 0xE5, CHR 0x8A, CHR 0xA1]"
  by (simp add: encodeRune_def char_of_eq_iff take_bit_eq_mod)

lemma decode_6211: "DecodeRuneInString (CHR 0xE6 # CHR 0x88 # CHR 0x91 # rest) = (0x6211, 3)"
  by (simp add: Decode_3)

lemma decode_7684: "DecodeRuneInString (CHR 0xE7 # CHR 0x9A # CHR 0x84 # rest) = (0x7684, 3)"
  by (simp add: Decode_3)

lemma decode_4EFB: "DecodeRuneInString (CHR 0xE4 # CHR 0xBB # CHR 0xBB # rest) = (0x4EFB, 3)"
  by (simp add: Decode_3)

lemma decode_52A1: "DecodeRuneInString (CHR 0xE5 # CHR 0x8A # CHR 0xA1 # rest) = (0x52A1, 3)"
  by (simp add: Decode_3)

lemma strings_Map_txtMyTasks:
  assumes "caselessCJK tbl"
  shows "strings_Map (unicode_ToLower tbl) (txtMyTasks @ post)
           = txtMyTasks @ strings_Map (unicode_ToLower tbl) post"
proof -
  have f: "unicode_ToLower tbl 0x6211 = 0x6211" "unicode_ToLower tbl 0x7684 = 0x7684"
    "unicode_ToLower tbl 0x4EFB = 0x4EFB" "unicode_ToLower tbl 0x52A1 = 0x52A1"
    using assms by (simp_all add: unicode_ToLower_def caselessCJK_def)
  show ?thesis
    unfolding txtMyTasks_def
    by (simp add: decode_6211 decode_7684 decode_4EFB decode_52A1 f
                  encode_6211 encode_7684 encode_4EFB encode_52A1)
qed

section \<open>Trimming white space keeps a text that has none\<close>

lemma DecodeLast_cases:
  assumes "t \<noteq> []" and "DecodeLastRuneInString t = (r, n)"
  shows "1 \<le> n \<and> n \<le> length t
         \<and> ((r = RuneError \<and> n = 1)
              \<or> DecodeRuneInString (drop (length t - n) t) = (r, n))"
proof -
  define start0 where "start0 = backToRuneStart t (int (length t) - 2) (max 0 (int (length t) - 4))"
  define start where "start = (if start0 < 0 then 0 else nat start0)"
  have len: "0 < length t" using assms(1) by simp
  have len1: "Suc 0 \<le> length t" using assms(1) by (cases t) simp_all
  have "start0 \<le> int (length t) - 2"
    unfolding start0_def by (rule backToRuneStart_le)
  with len have lt: "start < length t"
    unfolding start_def by (cases "start0 < 0") simp_all
  obtain r' sz where rs: "DecodeRuneInString (drop start t) = (r', sz)"
    by (cases "DecodeRuneInString (drop start t)")
  have eq: "DecodeLastRuneInString t =
    (if (of_char (t ! (length t - 1)) :: nat) < RuneSelf then (of_char (t ! (length t - 1)), 1)
     else if start + sz \<noteq> length t then (RuneError, 1) else (r', sz))"
    using len rs
    by (simp only: DecodeLastRuneInString_def Let_def start_def [symmetric] start0_def [symmetric])
       simp
  have lastd: "drop (length t - 1) t = [t ! (length t - 1)]"
  proof -
    from assms(1) obtain ys y where "t = ys @ [y]" by (cases t rule: rev_cases) auto
    then show ?thesis by simp
  qed
  show ?thesis
  proof (cases "(of_char (t ! (length t - 1)) :: nat) < RuneSelf")
    case True
    with eq assms(2) have r: "r = of_char (t ! (length t - 1))" "n = 1" by simp_all
    from True have "DecodeRuneInString [t ! (length t - 1)] = (of_char (t ! (length t - 1)), 1)"
      by (simp add: Decode_ascii)
    with r lastd len1 show ?thesis by simp
  next
    case False
    show ?thesis
    proof (cases "start + sz \<noteq> length t")
      case True
      with False eq assms(2) len1 show ?thesis by simp
    next
      case m: False
      with False eq assms(2) have r: "r = r'" "n = sz" by simp_all
      from m have "start = length t - sz" by simp
      with rs r m lt len1 show ?thesis by auto
    qed
  qed
qed

lemma Decode_continuation_nth:
  assumes "DecodeRuneInString u = (r, n)" and "0 < k" and "k < n"
  shows "\<not> RuneStart (u ! k)"
proof -
  from assms have ne: "u \<noteq> []" by (cases u) auto
  from Decode_shape [OF assms(1) ne]
  have n: "n \<le> length u" and c: "\<forall>c \<in> set (take (n - 1) (tl u)). \<not> RuneStart c" by simp_all
  from ne obtain c0 cs where u: "u = c0 # cs" by (cases u) auto
  from assms(2) obtain j where k: "k = Suc j" by (cases k) auto
  from assms(3) n u k have j: "j < n - 1" "j < length cs" by simp_all
  then have "cs ! j \<in> set (take (n - 1) cs)"
    by (metis in_set_conv_nth length_take min_less_iff_conj nth_take)
  with c u k show ?thesis by simp
qed

lemma Decode_wide_lead:
  assumes "DecodeRuneInString u = (r, n)" and "2 \<le> n"
  shows "u \<noteq> [] \<and> RuneSelf \<le> (of_char (hd u) :: nat)"
proof (cases u)
  case Nil
  with assms show ?thesis by simp
next
  case (Cons c0 cs)
  show ?thesis
  proof (cases "(of_char c0 :: nat) < 128")
    case True
    with assms Cons show ?thesis by (simp add: Decode_ascii)
  next
    case False
    with Cons show ?thesis by simp
  qed
qed

lemma survivesTrim_index:
  assumes W: "survivesTrim W" and S: "S = pre @ W @ post"
    and e: "length pre + length W \<le> e"
    and i: "i < e" "e \<le> length S"
    and st: "spaceStartByte (S ! i)"
    and ct: "\<forall>j. i < j \<and> j < e \<longrightarrow> \<not> RuneStart (S ! j)"
  shows "length pre + length W \<le> i"
proof (rule ccontr)
  assume "\<not> length pre + length W \<le> i"
  then have lt: "i < length pre + length W" by simp
  from W have ne: "W \<noteq> []" and rs: "RuneStart (hd W)" and ns: "\<forall>c \<in> set W. \<not> spaceStartByte c"
    by (simp_all add: survivesTrim_def)
  show False
  proof (cases "length pre \<le> i")
    case True
    with lt have il: "i - length pre < length W" by simp
    with True S have "S ! i = W ! (i - length pre)"
      by (simp add: nth_append)
    note this il
    then have "S ! i \<in> set W" by simp
    with ns st show False by blast
  next
    case False
    then have ip: "i < length pre" by simp
    from ne have "1 \<le> length W" by (cases W) simp_all
    with e have pe: "length pre < e" by linarith
    from S ne have "S ! length pre = hd W" by (simp add: nth_append hd_conv_nth)
    with ct ip pe rs show False by auto
  qed
qed

lemma TrimLeftFunc_keeps:
  assumes W: "survivesTrim W"
  shows "\<exists>pre'. TrimLeftFunc unicode_IsSpace (pre @ W @ post) = pre' @ W @ post"
proof (induction "length pre" arbitrary: pre rule: less_induct)
  case less
  from W obtain x ws where Wx: "W = x # ws" by (cases W) (auto simp: survivesTrim_def)
  from W Wx have rs: "RuneStart x" and nx: "\<not> spaceStartByte x"
    by (simp_all add: survivesTrim_def)
  show ?case
  proof (cases pre)
    case Nil
    obtain r w where d: "DecodeRuneInString (x # ws @ post) = (r, w)"
      by (cases "DecodeRuneInString (x # ws @ post)")
    have "\<not> unicode_IsSpace r"
    proof
      assume "unicode_IsSpace r"
      from Decode_space_start [OF d this] nx show False by simp
    qed
    with d have "TrimLeftFunc unicode_IsSpace (x # ws @ post) = x # ws @ post" by simp
    with Nil Wx show ?thesis by simp
  next
    case (Cons c cs)
    obtain r w where d: "DecodeRuneInString (c # cs @ W @ post) = (r, w)"
      by (cases "DecodeRuneInString (c # cs @ W @ post)")
    show ?thesis
    proof (cases "unicode_IsSpace r")
      case False
      with d have "TrimLeftFunc unicode_IsSpace (c # cs @ W @ post) = c # cs @ W @ post" by simp
      with Cons show ?thesis by auto
    next
      case True
      have wl: "w - 1 \<le> length cs"
      proof (rule ccontr)
        assume "\<not> w - 1 \<le> length cs"
        then have k: "0 < Suc (length cs)" "Suc (length cs) < w" by simp_all
        from Decode_continuation_nth [OF d k]
        have "\<not> RuneStart ((cs @ W @ post) ! length cs)" by simp
        with Wx rs show False by (simp add: nth_append)
      qed
      then have dr: "drop (w - 1) (cs @ W @ post) = drop (w - 1) cs @ W @ post" by simp
      from Cons have "length (drop (w - 1) cs) < length pre" by simp
      from less [OF this] obtain pre' where
        "TrimLeftFunc unicode_IsSpace (drop (w - 1) cs @ W @ post) = pre' @ W @ post" by blast
      with d True dr have "TrimLeftFunc unicode_IsSpace (c # cs @ W @ post) = pre' @ W @ post"
        by simp
      with Cons show ?thesis by auto
    qed
  qed
qed

declare lastIndexFunc.simps [simp del] trimSpaceStop.simps [simp del] backToRuneStart.simps [simp del]

lemma lastIndexFunc_step:
  assumes "t \<noteq> []" and "DecodeLastRuneInString t = (r, n)"
  shows "lastIndexFunc f truth t =
           (if f r = truth then Some (length t - n)
            else lastIndexFunc f truth (take (length t - n) t))"
  using assms by (subst lastIndexFunc.simps) (simp add: Let_def)

lemma drop_take_split:
  assumes "i \<le> e" and "e \<le> length S"
  shows "drop i S = drop i (take e S) @ drop e S"
proof -
  have "drop i S = drop i (take e S @ drop e S)" by simp
  also have "\<dots> = drop i (take e S) @ drop e S"
    using assms by (simp only: drop_append length_take) simp
  finally show ?thesis .
qed

lemma lastIndexFunc_keeps:
  assumes W: "survivesTrim W" and S: "S = pre @ W @ post"
  shows "length pre + length W \<le> e \<Longrightarrow> e \<le> length S \<Longrightarrow>
         \<exists>i. lastIndexFunc unicode_IsSpace False (take e S) = Some i
              \<and> length pre + length W \<le> endOfRune S i \<and> endOfRune S i \<le> length S"
proof (induction e rule: less_induct)
  case (less e)
  let ?m = "length pre + length W"
  let ?t = "take e S"
  from W have lw: "1 \<le> length W" by (cases W) (simp_all add: survivesTrim_def)
  with less.prems have e1: "1 \<le> e" by linarith
  from less.prems have lt: "length ?t = e" by simp
  from e1 lt have tne: "?t \<noteq> []" by (cases ?t) simp_all
  obtain r n where dl: "DecodeLastRuneInString ?t = (r, n)"
    by (cases "DecodeLastRuneInString ?t")
  from DecodeLast_cases [OF tne dl] lt
  have n: "1 \<le> n" "n \<le> e"
    and cs: "(r = RuneError \<and> n = 1) \<or> DecodeRuneInString (drop (e - n) ?t) = (r, n)"
    by simp_all
  let ?i = "e - n"
  from n have ie: "?i < e" "?i \<le> e" by simp_all
  with less.prems have iS: "?i < length S" by simp
  have step: "lastIndexFunc unicode_IsSpace False ?t =
           (if unicode_IsSpace r = False then Some ?i
            else lastIndexFunc unicode_IsSpace False (take ?i ?t))"
    using lastIndexFunc_step [OF tne dl] lt by simp
  have sp: "drop ?i S = drop ?i ?t @ drop e S"
    by (rule drop_take_split) (use ie less.prems in simp_all)
  show ?case
  proof (cases "unicode_IsSpace r")
    case False
    from iS have dne: "drop ?i S \<noteq> []" by simp
    obtain r2 w2 where d2: "DecodeRuneInString (drop ?i S) = (r2, w2)"
      by (cases "DecodeRuneInString (drop ?i S)")
    from Decode_shape [OF d2 dne] have "1 \<le> w2" "w2 \<le> length (drop ?i S)" by simp_all
    with iS have w2: "1 \<le> w2" "?i + w2 \<le> length S" by simp_all
    have up: "endOfRune S ?i \<le> length S"
      using w2 d2 iS by (simp add: endOfRune_def)
    have lo: "?m \<le> endOfRune S ?i"
    proof (cases "n = 1")
      case True
      with n less.prems have "?m \<le> ?i + 1" by simp
      moreover have "?i + 1 \<le> endOfRune S ?i" using w2 d2 by (simp add: endOfRune_def)
      ultimately show ?thesis by simp
    next
      case False
      with n have n2: "2 \<le> n" by simp
      with cs have d: "DecodeRuneInString (drop ?i ?t) = (r, n)" by auto
      from Decode_prefix [OF d n2, of "drop e S"] sp d2 have w: "w2 = n" by simp
      from Decode_wide_lead [OF d n2] have "RuneSelf \<le> (of_char (hd (drop ?i ?t)) :: nat)" by simp
      moreover have "hd (drop ?i ?t) = S ! ?i"
        using ie lt less.prems by (simp add: hd_drop_conv_nth)
      ultimately have "endOfRune S ?i = ?i + w2" using d2 by (simp add: endOfRune_def)
      with w n less.prems show ?thesis by simp
    qed
    from False step lo up show ?thesis by auto
  next
    case True
    then have "r \<noteq> RuneError" using RuneError_not_space by auto
    with cs have d: "DecodeRuneInString (drop ?i ?t) = (r, n)" by auto
    from Decode_space_start [OF d True] have "spaceStartByte (hd (drop ?i ?t))" by simp
    moreover have hd: "hd (drop ?i ?t) = S ! ?i"
      using ie lt less.prems by (simp add: hd_drop_conv_nth)
    ultimately have st: "spaceStartByte (S ! ?i)" by simp
    have ct: "\<forall>j. ?i < j \<and> j < e \<longrightarrow> \<not> RuneStart (S ! j)"
    proof (intro allI impI)
      fix j assume j: "?i < j \<and> j < e"
      with n have k: "0 < j - ?i" "j - ?i < n" by linarith+
      from Decode_continuation_nth [OF d k] have "\<not> RuneStart (drop ?i ?t ! (j - ?i))" .
      moreover have "drop ?i ?t ! (j - ?i) = S ! j"
        using j lt less.prems by simp
      ultimately show "\<not> RuneStart (S ! j)" by simp
    qed
    from survivesTrim_index [OF W S less.prems(1) ie(1) less.prems(2) st ct]
    have mi: "?m \<le> ?i" .
    from iS have "?i \<le> length S" by simp
    from less.IH [OF ie(1) mi this]
    obtain i where "lastIndexFunc unicode_IsSpace False (take ?i S) = Some i"
      "?m \<le> endOfRune S i" "endOfRune S i \<le> length S" by blast
    moreover have "take ?i ?t = take ?i S" using ie by (simp add: min_def)
    ultimately show ?thesis using True step by auto
  qed
qed

lemma TrimRightFunc_keeps:
  assumes W: "survivesTrim W"
  shows "\<exists>post'. TrimRightFunc unicode_IsSpace (pre @ W @ post) = pre @ W @ post'"
proof -
  let ?S = "pre @ W @ post"
  have "length pre + length W \<le> length ?S" by simp
  from lastIndexFunc_keeps [OF W refl this order_refl]
  obtain i where i: "lastIndexFunc unicode_IsSpace False ?S = Some i"
    and lo: "length pre + length W \<le> endOfRune ?S i" and up: "endOfRune ?S i \<le> length ?S"
    by auto
  from i have "TrimRightFunc unicode_IsSpace ?S = take (endOfRune ?S i) ?S"
    by (simp add: TrimRightFunc_def endOfRune_def)
  also from lo have "\<dots> = pre @ W @ take (endOfRune ?S i - (length pre + length W)) post"
    by simp
  finally show ?thesis by blast
qed

lemma asciiSpace_spaceStartByte: "asciiSpace (of_char c) \<Longrightarrow> spaceStartByte c"
  by (simp add: spaceStartByte_def)

lemma trimSpaceStop_step:
  "s \<noteq> [] \<Longrightarrow> trimSpaceStop s =
     (if RuneSelf \<le> (of_char (last s) :: nat) then TrimRightFunc unicode_IsSpace s
      else if asciiSpace (of_char (last s)) then trimSpaceStop (butlast s)
      else s)"
  by (subst trimSpaceStop.simps) simp

lemma trimSpaceStop_keeps:
  assumes W: "survivesTrim W"
  shows "\<exists>post'. trimSpaceStop (pre @ W @ post) = pre @ W @ post'"
proof (induction post rule: rev_induct)
  case Nil
  from W have ne: "W \<noteq> []" and ns: "\<not> spaceStartByte (last W)"
    by (auto simp: survivesTrim_def)
  then have na: "\<not> asciiSpace (of_char (last W))" using asciiSpace_spaceStartByte by blast
  from ne have l: "last (pre @ W) = last W" by simp
  from ne have "pre @ W \<noteq> []" by simp
  from trimSpaceStop_step [OF this] l na TrimRightFunc_keeps [OF W, of pre "[]"]
  show ?case by (cases "RuneSelf \<le> (of_char (last W) :: nat)") auto
next
  case (snoc x post)
  have ne: "pre @ W @ post @ [x] \<noteq> []" by simp
  have l: "last (pre @ W @ post @ [x]) = x" by simp
  have b: "butlast (pre @ W @ post @ [x]) = pre @ W @ post"
    by (simp add: butlast_append)
  from trimSpaceStop_step [OF ne] l b snoc TrimRightFunc_keeps [OF W, of pre "post @ [x]"]
  show ?case
    by (cases "RuneSelf \<le> (of_char x :: nat)"; cases "asciiSpace (of_char x)") auto
qed

lemma TrimFunc_keeps:
  assumes W: "survivesTrim W"
  shows "\<exists>pre' post'. TrimFunc unicode_IsSpace (pre @ W @ post) = pre' @ W @ post'"
proof -
  from TrimLeftFunc_keeps [OF W, of pre post] obtain pre' where
    "TrimLeftFunc unicode_IsSpace (pre @ W @ post) = pre' @ W @ post" by blast
  with TrimRightFunc_keeps [OF W, of pre' post] show ?thesis
    by (auto simp: TrimFunc_def)
qed

lemma strings_TrimSpace_keeps:
  assumes W: "survivesTrim W"
  shows "\<exists>pre' post'. strings_TrimSpace (pre @ W @ post) = pre' @ W @ post'"
proof (induction pre)
  case Nil
  from W obtain x ws where Wx: "W = x # ws" by (cases W) (auto simp: survivesTrim_def)
  from W Wx have na: "\<not> asciiSpace (of_char x)"
    using asciiSpace_spaceStartByte by (auto simp: survivesTrim_def)
  show ?case
  proof (cases "RuneSelf \<le> (of_char x :: nat)")
    case True
    with TrimFunc_keeps [OF W, of "[]" post] Wx show ?thesis by simp
  next
    case False
    from trimSpaceStop_keeps [OF W, of "[]" post] obtain post' where
      "trimSpaceStop (W @ post) = [] @ W @ post'" by auto
    with False na Wx have "strings_TrimSpace ([] @ W @ post) = [] @ W @ post'" by simp
    then show ?thesis by blast
  qed
next
  case (Cons c pre)
  show ?case
  proof (cases "RuneSelf \<le> (of_char c :: nat)")
    case True
    with TrimFunc_keeps [OF W, of "c # pre" post] show ?thesis by simp
  next
    case False
    show ?thesis
    proof (cases "asciiSpace (of_char c)")
      case True
      with False Cons show ?thesis by simp
    next
      case na: False
      from trimSpaceStop_keeps [OF W, of "c # pre" post] obtain post' where
        "trimSpaceStop ((c # pre) @ W @ post) = (c # pre) @ W @ post'" by auto
      with False na have "strings_TrimSpace ((c # pre) @ W @ post) = (c # pre) @ W @ post'"
        by simp
      then show ?thesis by blast
    qed
  qed
qed

section \<open>A question that contains the phrase for my tasks\<close>

lemma survivesTrim_txtMyTasks: "survivesTrim txtMyTasks"
  by (simp add: survivesTrim_def txtMyTasks_def RuneStart_def spaceStartByte_def asciiSpace_def)

lemma containsSubstring_TrimSpace:
  assumes "survivesTrim W" and "containsSubstring s W"
  shows "containsSubstring (strings_TrimSpace s) W"
proof -
  from assms(2) obtain pre post where "s = pre @ W @ post"
    unfolding containsSubstring_def by blast
  with strings_TrimSpace_keeps [OF assms(1), of pre post] show ?thesis
    unfolding containsSubstring_def by auto
qed

lemma containsSubstring_ToLower_txtMyTasks:
  assumes "caselessCJK tbl" and "containsSubstring t txtMyTasks"
  shows "containsSubstring (strings_ToLower tbl t) txtMyTasks"
proof -
  from assms(2) obtain pre post where t: "t = pre @ txtMyTasks @ post"
    unfolding containsSubstring_def by blast
  have na: "\<not> isASCII t"
    unfolding t by (simp add: isASCII_def txtMyTasks_def)
  have rs: "txtMyTasks @ post = [] \<or> RuneStart (hd (txtMyTasks @ post))"
    by (simp add: txtMyTasks_def RuneStart_def)
  have "strings_ToLower tbl t = strings_Map (unicode_ToLower tbl) t"
    using na by (simp add: strings_ToLower_def)
  also have "\<dots> = strings_Map (unicode_ToLower tbl) pre
                    @ strings_Map (unicode_ToLower tbl) (txtMyTasks @ post)"
    unfolding t by (rule strings_Map_append [OF rs])
  also have "\<dots> = strings_Map (unicode_ToLower tbl) pre
                    @ txtMyTasks @ strings_Map (unicode_ToLower tbl) post"
    by (simp only: strings_Map_txtMyTasks [OF assms(1)])
  finally show ?thesis unfolding containsSubstring_def by blast
qed

lemma myTasksRule_of_question:
  assumes "caselessCJK tbl" and "containsSubstring question txtMyTasks"
  shows "myTasksRule (strings_ToLower tbl (strings_TrimSpace question))"
proof -
  from containsSubstring_TrimSpace [OF survivesTrim_txtMyTasks assms(2)]
  have "containsSubstring (strings_TrimSpace question) txtMyTasks" .
  from containsSubstring_ToLower_txtMyTasks [OF assms(1) this]
  show ?thesis by (simp add: myTasksRule_def strings_Contains_iff)
qed

lemma caselessCJK_id: "caselessCJK (\<lambda>r. r)"
  by (simp add: caselessCJK_def)

lemma txtQueryMyTasks_contains: "containsSubstring txtQueryMyTasks txtMyTasks"
proof -
  have "txtQueryMyTasks = txtQuery @ txtMyTasks @ []"
    by (simp add: txtQueryMyTasks_def txtQuery_def txtMyTasks_def)
  then show ?thesis unfolding containsSubstring_def by blast
qed

text \<open>What trimming leaves of a string around such a text: an end of the part before it and
  a start of the part after it.\<close>

lemma TrimLeftFunc_drops:
  assumes W: "survivesTrim W"
  shows "\<exists>k. TrimLeftFunc unicode_IsSpace (pre @ W @ post) = drop k pre @ W @ post"
proof (induction "length pre" arbitrary: pre rule: less_induct)
  case less
  from W obtain x ws where Wx: "W = x # ws" by (cases W) (auto simp: survivesTrim_def)
  from W Wx have rs: "RuneStart x" and nx: "\<not> spaceStartByte x"
    by (simp_all add: survivesTrim_def)
  show ?case
  proof (cases pre)
    case Nil
    obtain r w where d: "DecodeRuneInString (x # ws @ post) = (r, w)"
      by (cases "DecodeRuneInString (x # ws @ post)")
    have "\<not> unicode_IsSpace r"
    proof
      assume "unicode_IsSpace r"
      from Decode_space_start [OF d this] nx show False by simp
    qed
    with d have "TrimLeftFunc unicode_IsSpace (x # ws @ post) = x # ws @ post" by simp
    with Nil Wx show ?thesis by simp
  next
    case (Cons c cs)
    obtain r w where d: "DecodeRuneInString (c # cs @ W @ post) = (r, w)"
      by (cases "DecodeRuneInString (c # cs @ W @ post)")
    show ?thesis
    proof (cases "unicode_IsSpace r")
      case False
      with d have "TrimLeftFunc unicode_IsSpace (c # cs @ W @ post) = drop 0 (c # cs) @ W @ post"
        by simp
      with Cons show ?thesis by (intro exI [of _ 0]) simp
    next
      case True
      have wl: "w - 1 \<le> length cs"
      proof (rule ccontr)
        assume "\<not> w - 1 \<le> length cs"
        then have k: "0 < Suc (length cs)" "Suc (length cs) < w" by simp_all
        from Decode_continuation_nth [OF d k]
        have "\<not> RuneStart ((cs @ W @ post) ! length cs)" by simp
        with Wx rs show False by (simp add: nth_append)
      qed
      then have dr: "drop (w - 1) (cs @ W @ post) = drop (w - 1) cs @ W @ post" by simp
      from Cons have "length (drop (w - 1) cs) < length pre" by simp
      from less [OF this] obtain k where
        "TrimLeftFunc unicode_IsSpace (drop (w - 1) cs @ W @ post)
           = drop k (drop (w - 1) cs) @ W @ post" by blast
      with d True dr have "TrimLeftFunc unicode_IsSpace (c # cs @ W @ post)
           = drop (Suc (k + (w - 1))) (c # cs) @ W @ post"
        by simp
      with Cons show ?thesis by (intro exI [of _ "Suc (k + (w - 1))"]) simp
    qed
  qed
qed

lemma TrimRightFunc_takes:
  assumes W: "survivesTrim W"
  shows "\<exists>k. TrimRightFunc unicode_IsSpace (pre @ W @ post) = pre @ W @ take k post"
proof -
  let ?S = "pre @ W @ post"
  have "length pre + length W \<le> length ?S" by simp
  from lastIndexFunc_keeps [OF W refl this order_refl]
  obtain i where i: "lastIndexFunc unicode_IsSpace False ?S = Some i"
    and lo: "length pre + length W \<le> endOfRune ?S i" and up: "endOfRune ?S i \<le> length ?S"
    by auto
  from i have "TrimRightFunc unicode_IsSpace ?S = take (endOfRune ?S i) ?S"
    by (simp add: TrimRightFunc_def endOfRune_def)
  also from lo have "\<dots> = pre @ W @ take (endOfRune ?S i - (length pre + length W)) post"
    by simp
  finally show ?thesis by blast
qed

lemma trimSpaceStop_takes:
  assumes W: "survivesTrim W"
  shows "\<exists>k. trimSpaceStop (pre @ W @ post) = pre @ W @ take k post"
proof (induction post rule: rev_induct)
  case Nil
  from W have ne: "W \<noteq> []" and ns: "\<not> spaceStartByte (last W)"
    by (auto simp: survivesTrim_def)
  then have na: "\<not> asciiSpace (of_char (last W))" using asciiSpace_spaceStartByte by blast
  from ne have l: "last (pre @ W) = last W" by simp
  from ne have "pre @ W \<noteq> []" by simp
  from trimSpaceStop_step [OF this] l na TrimRightFunc_takes [OF W, of pre "[]"]
  show ?case by (cases "RuneSelf \<le> (of_char (last W) :: nat)") auto
next
  case (snoc x post)
  have ne: "pre @ W @ post @ [x] \<noteq> []" by simp
  have l: "last (pre @ W @ post @ [x]) = x" by simp
  have b: "butlast (pre @ W @ post @ [x]) = pre @ W @ post"
    by (simp add: butlast_append)
  show ?case
  proof (cases "RuneSelf \<le> (of_char x :: nat)")
    case True
    with trimSpaceStop_step [OF ne] l TrimRightFunc_takes [OF W, of pre "post @ [x]"]
    show ?thesis by simp
  next
    case False
    show ?thesis
    proof (cases "asciiSpace (of_char x)")
      case True
      from snoc obtain k where k: "trimSpaceStop (pre @ W @ post) = pre @ W @ take k post"
        by blast
      have "take k post = take (min k (length post)) (post @ [x])"
        by (cases "k \<le> length post") (simp_all add: min_def)
      with k trimSpaceStop_step [OF ne] l b False True
      have "trimSpaceStop (pre @ W @ post @ [x])
              = pre @ W @ take (min k (length post)) (post @ [x])" by simp
      then show ?thesis by blast
    next
      case na: False
      with trimSpaceStop_step [OF ne] l False
      have "trimSpaceStop (pre @ W @ post @ [x])
              = pre @ W @ take (length (post @ [x])) (post @ [x])" by simp
      then show ?thesis by blast
    qed
  qed
qed

lemma TrimFunc_exact:
  assumes W: "survivesTrim W"
  shows "\<exists>j k. TrimFunc unicode_IsSpace (pre @ W @ post) = drop j pre @ W @ take k post"
proof -
  from TrimLeftFunc_drops [OF W, of pre post] obtain j where
    "TrimLeftFunc unicode_IsSpace (pre @ W @ post) = drop j pre @ W @ post" by blast
  with TrimRightFunc_takes [OF W, of "drop j pre" post] show ?thesis
    by (auto simp: TrimFunc_def)
qed

lemma strings_TrimSpace_exact:
  assumes W: "survivesTrim W"
  shows "\<exists>j k. strings_TrimSpace (pre @ W @ post) = drop j pre @ W @ take k post"
proof (induction pre)
  case Nil
  from W obtain x ws where Wx: "W = x # ws" by (cases W) (auto simp: survivesTrim_def)
  from W Wx have na: "\<not> asciiSpace (of_char x)"
    using asciiSpace_spaceStartByte by (auto simp: survivesTrim_def)
  show ?case
  proof (cases "RuneSelf \<le> (of_char x :: nat)")
    case True
    with TrimFunc_exact [OF W, of "[]" post] Wx show ?thesis by simp
  next
    case False
    from trimSpaceStop_takes [OF W, of "[]" post] obtain k where
      "trimSpaceStop (W @ post) = W @ take k post" by auto
    with False na Wx have "strings_TrimSpace ([] @ W @ post) = drop 0 [] @ W @ take k post"
      by simp
    then show ?thesis by blast
  qed
next
  case (Cons c pre)
  show ?case
  proof (cases "RuneSelf \<le> (of_char c :: nat)")
    case True
    with TrimFunc_exact [OF W, of "c # pre" post] show ?thesis by simp
  next
    case False
    show ?thesis
    proof (cases "asciiSpace (of_char c)")
      case True
      from Cons obtain j k where
        "strings_TrimSpace (pre @ W @ post) = drop j pre @ W @ take k post" by blast
      with False True have "strings_TrimSpace ((c # pre) @ W @ post)
          = drop (Suc j) (c # pre) @ W @ take k post" by simp
      then show ?thesis by blast
    next
      case na: False
      from trimSpaceStop_takes [OF W, of "c # pre" post] obtain k where
        "trimSpaceStop ((c # pre) @ W @ post) = (c # pre) @ W @ take k post" by auto
      with False na have "strings_TrimSpace ((c # pre) @ W @ post)
          = drop 0 (c # pre) @ W @ take k post"
        by simp
      then show ?thesis by blast
    qed
  qed
qed

lemma strings_Map_ToUpper_ascii:
  assumes "isASCII a"
  shows "strings_Map (unicode_ToUpper tbl) (a @ b)
           = map asciiUpper a @ strings_Map (unicode_ToUpper tbl) b"
  using assms
proof (induction a)
  case Nil
  show ?case by simp
next
  case (Cons c a)
  then have c: "(of_char c :: nat) < 128" and a: "isASCII a" by (simp_all add: isASCII_def)
  have e: "encodeRune (unicode_ToUpper tbl (of_char c)) = [asciiUpper c]"
    using c by (auto simp: encodeRune_def unicode_ToUpper_def asciiUpper_def)
  from Cons.IH [OF a] c e show ?case by (simp add: Decode_ascii)
qed

lemma strings_ToUpper_eq_Map:
  "strings_ToUpper tbl s = strings_Map (unicode_ToUpper tbl) s"
  using strings_Map_ToUpper_ascii [of s tbl "[]"] by (simp add: strings_ToUpper_def)

section \<open>Upper-casing around ASCII text\<close>

lemma isWordChar_asciiUpper: "isWordChar (asciiUpper c) = isWordChar c"
  by (auto simp: isWordChar_def asciiUpper_def Let_def)

lemma forbiddenKeywords_upper:
  "kw \<in> set forbiddenKeywords \<Longrightarrow> c \<in> set kw
     \<Longrightarrow> 65 \<le> (of_char c :: nat) \<and> (of_char c :: nat) \<le> 90"
  by (auto simp: forbiddenKeywords_def)

lemma asciiUpper_letter:
  assumes "65 \<le> (of_char (asciiUpper c) :: nat)" "(of_char (asciiUpper c) :: nat) \<le> 90"
  shows "(65 \<le> (of_char c :: nat) \<and> (of_char c :: nat) \<le> 90)
         \<or> (97 \<le> (of_char c :: nat) \<and> (of_char c :: nat) \<le> 122)"
  using assms by (auto simp: asciiUpper_def split: if_splits)

lemma keyword_text_letters:
  assumes "kw \<in> set forbiddenKeywords" and "map asciiUpper w = kw" and "c \<in> set w"
  shows "(65 \<le> (of_char c :: nat) \<and> (of_char c :: nat) \<le> 90)
         \<or> (97 \<le> (of_char c :: nat) \<and> (of_char c :: nat) \<le> 122)"
proof -
  from assms(2,3) have "asciiUpper c \<in> set kw" by auto
  from forbiddenKeywords_upper [OF assms(1) this] show ?thesis
    by (intro asciiUpper_letter) simp_all
qed

lemma keyword_text_survivesTrim:
  assumes "kw \<in> set forbiddenKeywords" and "map asciiUpper w = kw"
  shows "survivesTrim w \<and> isASCII w"
proof -
  from assms forbiddenKeywords_nonempty have ne: "w \<noteq> []" by auto
  have l: "\<forall>c \<in> set w. (65 \<le> (of_char c :: nat) \<and> (of_char c :: nat) \<le> 90)
         \<or> (97 \<le> (of_char c :: nat) \<and> (of_char c :: nat) \<le> 122)"
    using keyword_text_letters [OF assms] by blast
  then have "\<forall>c \<in> set w. RuneStart c \<and> \<not> spaceStartByte c \<and> (of_char c :: nat) < RuneSelf"
    by (auto simp: RuneStart_def spaceStartByte_def asciiSpace_def)
  with ne show ?thesis
    by (cases w) (auto simp: survivesTrim_def isASCII_def list_all_iff)
qed

lemma strings_Map_ToUpper_single:
  "(of_char c :: nat) < RuneSelf \<Longrightarrow> strings_Map (unicode_ToUpper tbl) (c # r)
     = asciiUpper c # strings_Map (unicode_ToUpper tbl) r"
  using strings_Map_ToUpper_ascii [of "[c]" tbl r] by (simp add: isASCII_def)

lemma upper_left_boundary:
  assumes "p = [] \<or> asciiNonWord (last p)"
  shows "strings_Map (unicode_ToUpper tbl) p = []
         \<or> \<not> isWordChar (last (strings_Map (unicode_ToUpper tbl) p))"
proof (cases p rule: rev_cases)
  case Nil
  then show ?thesis by simp
next
  case (snoc ys c)
  with assms have c: "(of_char c :: nat) < RuneSelf" "\<not> isWordChar c"
    by (simp_all add: asciiNonWord_def)
  then have rs: "[c] = [] \<or> RuneStart (hd [c])" by (simp add: RuneStart_def)
  have "strings_Map (unicode_ToUpper tbl) (ys @ [c])
          = strings_Map (unicode_ToUpper tbl) ys @ [asciiUpper c]"
    unfolding strings_Map_append [OF rs]
    using strings_Map_ToUpper_single [OF c(1), of tbl "[]"] by simp
  with snoc c show ?thesis by (simp add: isWordChar_asciiUpper)
qed

lemma upper_right_boundary:
  assumes "q = [] \<or> asciiNonWord (hd q)"
  shows "strings_Map (unicode_ToUpper tbl) q = []
         \<or> \<not> isWordChar (hd (strings_Map (unicode_ToUpper tbl) q))"
proof (cases q)
  case Nil
  then show ?thesis by simp
next
  case (Cons c r)
  with assms have c: "(of_char c :: nat) < RuneSelf" "\<not> isWordChar c"
    by (simp_all add: asciiNonWord_def)
  with Cons strings_Map_ToUpper_single [OF c(1), of tbl r] show ?thesis
    by (simp add: isWordChar_asciiUpper)
qed

lemma keyword_any_case_upper:
  assumes kw: "kw \<in> set forbiddenKeywords" and c: "containsKeywordAnyCase s kw"
  shows "containsWholeWord (upperTrimmed tbl s) kw"
proof -
  from c obtain pre w post where s: "s = pre @ w @ post" and w: "map asciiUpper w = kw"
    and bl: "pre = [] \<or> asciiNonWord (last pre)"
    and br: "post = [] \<or> asciiNonWord (hd post)"
    unfolding containsKeywordAnyCase_def by blast
  from keyword_text_survivesTrim [OF kw w] have sv: "survivesTrim w" and asc: "isASCII w"
    by simp_all
  from sv have wne: "w \<noteq> []" and wrs: "RuneStart (hd w)" by (simp_all add: survivesTrim_def)
  from strings_TrimSpace_exact [OF sv, of pre post] obtain j k where
    t: "strings_TrimSpace s = drop j pre @ w @ take k post" unfolding s by blast
  let ?U = "strings_Map (unicode_ToUpper tbl)"
  have pl: "drop j pre = [] \<or> asciiNonWord (last (drop j pre))"
  proof (cases "drop j pre = []")
    case False
    then have "j < length pre" by simp
    then have "last (drop j pre) = last pre" "pre \<noteq> []" by (auto simp: last_drop)
    with bl show ?thesis by simp
  qed simp
  have qr: "take k post = [] \<or> asciiNonWord (hd (take k post))"
  proof (cases "take k post = []")
    case False
    then have "0 < k" "post \<noteq> []" by (cases k; auto)+
    then have "hd (take k post) = hd post" by (cases k; cases post) auto
    with br \<open>post \<noteq> []\<close> show ?thesis by simp
  qed simp
  have rs: "w @ take k post = [] \<or> RuneStart (hd (w @ take k post))"
    using wne wrs by simp
  have "upperTrimmed tbl s = ?U (drop j pre @ w @ take k post)"
    by (simp add: upperTrimmed_def strings_ToUpper_eq_Map t)
  also have "\<dots> = ?U (drop j pre) @ ?U (w @ take k post)"
    by (rule strings_Map_append [OF rs])
  also have "?U (w @ take k post) = kw @ ?U (take k post)"
    using strings_Map_ToUpper_ascii [OF asc] w by simp
  finally have "upperTrimmed tbl s = ?U (drop j pre) @ kw @ ?U (take k post)" .
  with upper_left_boundary [OF pl, of tbl] upper_right_boundary [OF qr, of tbl]
  show ?thesis unfolding containsWholeWord_def by blast
qed

lemma forbiddenChars_survivesTrim:
  "c \<in> set forbiddenChars \<Longrightarrow> survivesTrim c \<and> isASCII c \<and> map asciiUpper c = c"
  by (auto simp: forbiddenChars_def survivesTrim_def isASCII_def RuneStart_def
        spaceStartByte_def asciiSpace_def asciiUpper_def)

lemma forbidden_chars_upper:
  assumes c: "c \<in> set forbiddenChars" and s: "containsSubstring s c"
  shows "containsSubstring (upperTrimmed tbl s) c"
proof -
  from forbiddenChars_survivesTrim [OF c]
  have sv: "survivesTrim c" and asc: "isASCII c" and up: "map asciiUpper c = c" by simp_all
  from containsSubstring_TrimSpace [OF sv s] obtain p q where
    t: "strings_TrimSpace s = p @ c @ q" unfolding containsSubstring_def by blast
  from sv have rs: "c @ q = [] \<or> RuneStart (hd (c @ q))" by (simp add: survivesTrim_def)
  let ?U = "strings_Map (unicode_ToUpper tbl)"
  have "upperTrimmed tbl s = ?U (p @ c @ q)"
    by (simp add: upperTrimmed_def strings_ToUpper_eq_Map t)
  also have "\<dots> = ?U p @ ?U (c @ q)" by (rule strings_Map_append [OF rs])
  also have "?U (c @ q) = c @ ?U q" using strings_Map_ToUpper_ascii [OF asc] up by simp
  finally show ?thesis unfolding containsSubstring_def by blast
qed

section \<open>The rules of the validator on the upper-cased, trimmed text\<close>

lemma validateReadOnlySQL_upper_rules:
  "validateReadOnlySQL tbl [] = Some ErrGeneratedSQLEmpty
   \<and> (s \<noteq> [] \<and> \<not> startsWith (upperTrimmed tbl s) ''SELECT''
        \<longrightarrow> validateReadOnlySQL tbl s = Some (ErrGeneratedSQLNotSelect s))
   \<and> (s \<noteq> [] \<and> startsWith (upperTrimmed tbl s) ''SELECT''
        \<and> (\<exists>kw \<in> set forbiddenKeywords. containsWholeWord (upperTrimmed tbl s) kw)
        \<longrightarrow> (\<exists>kw \<in> set forbiddenKeywords. containsWholeWord (upperTrimmed tbl s) kw
              \<and> validateReadOnlySQL tbl s = Some (ErrGeneratedSQLForbidden kw)))
   \<and> (s \<noteq> [] \<and> startsWith (upperTrimmed tbl s) ''SELECT''
        \<and> \<not> (\<exists>kw \<in> set forbiddenKeywords. containsWholeWord (upperTrimmed tbl s) kw)
        \<and> (\<exists>c \<in> set forbiddenChars. containsSubstring (upperTrimmed tbl s) c)
        \<longrightarrow> (\<exists>c \<in> set forbiddenChars. containsSubstring (upperTrimmed tbl s) c
              \<and> validateReadOnlySQL tbl s = Some (ErrGeneratedSQLChars c)))
   \<and> (validateReadOnlySQL tbl s = None
        \<longleftrightarrow> s \<noteq> [] \<and> startsWith (upperTrimmed tbl s) ''SELECT''
            \<and> \<not> (\<exists>kw \<in> set forbiddenKeywords. containsWholeWord (upperTrimmed tbl s) kw)
            \<and> \<not> (\<exists>c \<in> set forbiddenChars. containsSubstring (upperTrimmed tbl s) c))
   \<and> validateReadOnlySQL tbl exampleSelect = None"
proof -
  let ?up = "upperTrimmed tbl s"
  let ?K = "find (containsWholeWord ?up) forbiddenKeywords"
  let ?C = "find (containsSubstring ?up) forbiddenChars"
  have kN: "?K = None \<longleftrightarrow> \<not> (\<exists>kw \<in> set forbiddenKeywords. containsWholeWord ?up kw)"
    by (auto simp: find_None_iff)
  have cN: "?C = None \<longleftrightarrow> \<not> (\<exists>c \<in> set forbiddenChars. containsSubstring ?up c)"
    by (auto simp: find_None_iff)
  have kS: "\<And>kw. ?K = Some kw \<Longrightarrow> kw \<in> set forbiddenKeywords \<and> containsWholeWord ?up kw"
    by (auto simp: find_Some_iff)
  have cS: "\<And>c. ?C = Some c \<Longrightarrow> c \<in> set forbiddenChars \<and> containsSubstring ?up c"
    by (auto simp: find_Some_iff)
  have r1: "validateReadOnlySQL tbl [] = Some ErrGeneratedSQLEmpty"
    by (simp add: validateReadOnlySQL_def)
  have r2: "s \<noteq> [] \<and> \<not> startsWith ?up ''SELECT''
        \<longrightarrow> validateReadOnlySQL tbl s = Some (ErrGeneratedSQLNotSelect s)"
    by (simp add: validateReadOnlySQL_eq)
  have r3: "s \<noteq> [] \<and> startsWith ?up ''SELECT''
        \<and> (\<exists>kw \<in> set forbiddenKeywords. containsWholeWord ?up kw)
        \<longrightarrow> (\<exists>kw \<in> set forbiddenKeywords. containsWholeWord ?up kw
              \<and> validateReadOnlySQL tbl s = Some (ErrGeneratedSQLForbidden kw))"
  proof (intro impI, elim conjE)
    assume a: "s \<noteq> []" "startsWith ?up ''SELECT''"
      and "\<exists>kw \<in> set forbiddenKeywords. containsWholeWord ?up kw"
    with kN obtain kw where f: "?K = Some kw" by (cases ?K) auto
    with a have "validateReadOnlySQL tbl s = Some (ErrGeneratedSQLForbidden kw)"
      by (simp add: validateReadOnlySQL_eq)
    with kS [OF f] show "\<exists>kw \<in> set forbiddenKeywords. containsWholeWord ?up kw
              \<and> validateReadOnlySQL tbl s = Some (ErrGeneratedSQLForbidden kw)" by blast
  qed
  have r4: "s \<noteq> [] \<and> startsWith ?up ''SELECT''
        \<and> \<not> (\<exists>kw \<in> set forbiddenKeywords. containsWholeWord ?up kw)
        \<and> (\<exists>c \<in> set forbiddenChars. containsSubstring ?up c)
        \<longrightarrow> (\<exists>c \<in> set forbiddenChars. containsSubstring ?up c
              \<and> validateReadOnlySQL tbl s = Some (ErrGeneratedSQLChars c))"
  proof (intro impI, elim conjE)
    assume a: "s \<noteq> []" "startsWith ?up ''SELECT''"
      and n: "\<not> (\<exists>kw \<in> set forbiddenKeywords. containsWholeWord ?up kw)"
      and "\<exists>c \<in> set forbiddenChars. containsSubstring ?up c"
    with cN obtain c where f: "?C = Some c" by (cases ?C) auto
    from n kN have "?K = None" by simp
    with a f have "validateReadOnlySQL tbl s = Some (ErrGeneratedSQLChars c)"
      by (simp add: validateReadOnlySQL_eq)
    with cS [OF f] show "\<exists>c \<in> set forbiddenChars. containsSubstring ?up c
              \<and> validateReadOnlySQL tbl s = Some (ErrGeneratedSQLChars c)" by blast
  qed
  have r5: "validateReadOnlySQL tbl s = None
        \<longleftrightarrow> s \<noteq> [] \<and> startsWith ?up ''SELECT''
            \<and> \<not> (\<exists>kw \<in> set forbiddenKeywords. containsWholeWord ?up kw)
            \<and> \<not> (\<exists>c \<in> set forbiddenChars. containsSubstring ?up c)"
    unfolding kN [symmetric] cN [symmetric]
    by (simp add: validateReadOnlySQL_eq split: option.splits)
  from r1 r2 r3 r4 r5 exampleSelect_accepted show ?thesis by blast
qed

lemma up_longS: "upperTrimmed upperTableLongS sqlLongSDrop = ''SELECT 1 FROM T WHERE SDROP TABLE BOARDS''"
  unfolding upperTrimmed_def sqlLongSDrop_def by code_simp

lemma val_longS: "validateReadOnlySQL upperTableLongS sqlLongSDrop = None"
  unfolding sqlLongSDrop_def by code_simp

lemma ww_longS: "regexp_MatchWord ''DROP'' sqlLongSDrop"
  unfolding sqlLongSDrop_def by code_simp

section \<open>The steps of the pipeline\<close>

lemma callQwenInternal_trace: "snd (callQwenInternal e p tr) = tr @ [CallQwen p]"
  by (simp add: callQwenInternal_def Let_def split: sum.splits prod.splits list.splits)

lemma callQwenInternal_error:
  "fst (callQwenInternal e p tr) = Inl err \<Longrightarrow> libraryError err"
  by (auto simp: callQwenInternal_def Let_def split: sum.splits prod.splits list.splits if_splits)

lemma callQwenInternal_cases:
  obtains err where "callQwenInternal e p tr = (Inl err, tr @ [CallQwen p])" "libraryError err"
  | out where "callQwenInternal e p tr = (Inr out, tr @ [CallQwen p])"
proof (cases "fst (callQwenInternal e p tr)")
  case (Inl err)
  with callQwenInternal_trace [of e p tr] callQwenInternal_error [of e p tr err] that(1)
  show ?thesis by (cases "callQwenInternal e p tr") auto
next
  case (Inr out)
  with callQwenInternal_trace [of e p tr] that(2)
  show ?thesis by (cases "callQwenInternal e p tr") auto
qed

lemma classifyIntent_llm:
  assumes "\<not> myTasksRule (strings_ToLower (toLowerTable e) (strings_TrimSpace question))"
    and "\<not> keyAndTaskRule (strings_ToLower (toLowerTable e) (strings_TrimSpace question))"
  shows "classifyIntent e question tr =
     (case fst (callQwenInternal e (classifyPrompt question) tr) of
        Inl err \<Rightarrow> Inl err
      | Inr out \<Rightarrow>
          if strings_Contains (strings_ToLower (toLowerTable e) (strings_TrimSpace out))
               intentQueryData
          then Inr intentQueryData else Inr intentChat,
      tr @ [CallQwen (classifyPrompt question)])"
proof -
  obtain r tr' where c: "callQwenInternal e (classifyPrompt question) tr = (r, tr')"
    by (cases "callQwenInternal e (classifyPrompt question) tr")
  with callQwenInternal_trace [of e "classifyPrompt question" tr]
  have t: "tr' = tr @ [CallQwen (classifyPrompt question)]" by simp
  from assms c t show ?thesis
    by (cases r) (simp_all add: classifyIntent_def Let_def)
qed

lemma classifyIntent_cases:
  "classifyIntent e question tr = (Inr intentQueryData, tr)
   \<or> (\<exists>r. classifyIntent e question tr = (r, tr @ [CallQwen (classifyPrompt question)])
           \<and> (r = Inr intentQueryData \<or> r = Inr intentChat
                \<or> (\<exists>err. r = Inl err \<and> libraryError err)))"
proof (cases "myTasksRule (strings_ToLower (toLowerTable e) (strings_TrimSpace question))
             \<or> keyAndTaskRule (strings_ToLower (toLowerTable e) (strings_TrimSpace question))")
  case True
  then have "classifyIntent e question tr = (Inr intentQueryData, tr)"
    by (auto simp: classifyIntent_def Let_def)
  then show ?thesis by simp
next
  case False
  then have a: "\<not> myTasksRule (strings_ToLower (toLowerTable e) (strings_TrimSpace question))"
    "\<not> keyAndTaskRule (strings_ToLower (toLowerTable e) (strings_TrimSpace question))"
    by simp_all
  show ?thesis
  proof (cases "fst (callQwenInternal e (classifyPrompt question) tr)")
    case (Inl err)
    with callQwenInternal_error [OF Inl] show ?thesis
      unfolding classifyIntent_llm [OF a] by simp
  next
    case (Inr out)
    then show ?thesis unfolding classifyIntent_llm [OF a] by simp
  qed
qed

lemma validateAndReturn_cases:
  "(validateReadOnlySQL (toUpperTable e) sql = None
      \<and> validateAndReturn e sql tr = (Inr sql, tr @ [Validate sql None]))
   \<or> (\<exists>err. validateReadOnlySQL (toUpperTable e) sql = Some err
        \<and> validateAndReturn e sql tr = (Inl err, tr @ [Validate sql (Some err)]))"
  by (cases "validateReadOnlySQL (toUpperTable e) sql") (simp_all add: validateAndReturn_def)

lemma validateReadOnlySQL_error:
  "validateReadOnlySQL tbl sql = Some err \<Longrightarrow> validationError err"
  by (auto simp: validateReadOnlySQL_def Let_def split: if_splits option.splits)

text \<open>Every branch of generateSQL ends in validateAndReturn, after at most one call of the
  model; the call of the model may fail instead.\<close>

lemma generateSQL_cases:
  "(\<exists>sql. generateSQL e schema userID question tr = validateAndReturn e sql tr)
   \<or> (\<exists>sql. generateSQL e schema userID question tr
             = validateAndReturn e sql (tr @ [CallQwen (generatePrompt schema userID question)]))
   \<or> (\<exists>err. generateSQL e schema userID question tr
             = (Inl err, tr @ [CallQwen (generatePrompt schema userID question)])
           \<and> libraryError err)"
proof (cases rule: callQwenInternal_cases [of e "generatePrompt schema userID question" tr])
  case (1 err)
  then show ?thesis by (auto simp: generateSQL_def Let_def)
next
  case (2 out)
  then show ?thesis by (auto simp: generateSQL_def Let_def)
qed

lemma validate_fallbackSQL: "validateReadOnlySQL tbl fallbackSQL = None"
  by code_simp

lemma validate_demoSQL: "validateReadOnlySQL tbl demoSQL = None"
  by code_simp

lemma trim_brackets: "strings_TrimSpace ''[]'' = ''[]''"
  by code_simp

lemma executeQuery_cases:
  "(\<exists>err. executeQuery e n query tr = (Inl err, tr @ [ExecuteQuery query])
          \<and> (err = ErrUnsupportedDBType \<or> (\<exists>msg. err = ErrExternal msg)))
   \<or> (\<exists>json. executeQuery e n query tr = (Inr json, tr @ [ExecuteQuery query])
          \<and> dbQuery e n query = Inr json)"
  by (cases "dbQuery e n query") (simp_all add: executeQuery_def Let_def)

lemma strings_Join_single: "strings_Join [a] sep = a"
  by simp

lemma buildAssigneeClause_single:
  assumes "PersonPropIDs c = [pid]" and "MultiPersonPropIDs c = []"
  shows "buildAssigneeClause userID (Some c)
         = '' AND (json_extract(fields, '$.properties.'' @ pid @ [CHR 0x27] @ '') = ''
           @ [CHR 0x27] @ userID @ [CHR 0x27] @ '')''"
  using assms by (simp add: buildAssigneeClause_def)

lemma generateSQL_myTasks:
  assumes "myTasksRule (strings_ToLower (toLowerTable e) (strings_TrimSpace question))"
  shows "generateSQL e schema userID question tr
         = validateAndReturn e
             (sqlSelectCards
              @ buildAssigneeClause userID
                  (case discoverPropertyCatalog e of Inl err \<Rightarrow> None | Inr c \<Rightarrow> Some c)
              @ sqlOrderLimit) tr"
  using assms by (simp add: generateSQL_def Let_def)

lemma demoSQL_eq:
  "sqlSelectCards
   @ ('' AND (json_extract(fields, '$.properties.'' @ ''assignee'' @ [CHR 0x27] @ '') = ''
           @ [CHR 0x27] @ ''u1'' @ [CHR 0x27] @ '')'')
   @ sqlOrderLimit = demoSQL"
  by (simp add: sqlSelectCards_def sqlOrderLimit_def demoSQL_def)

lemma generateSQL_assignee_u1:
  assumes "caselessCJK (toLowerTable e)" and "discoverPropertyCatalog e = Inr c"
    and "PersonPropIDs c = [''assignee'']" and "MultiPersonPropIDs c = []"
  shows "generateSQL e schema ''u1'' txtQueryMyTasks tr = (Inr demoSQL, tr @ [Validate demoSQL None])"
proof -
  from myTasksRule_of_question [OF assms(1) txtQueryMyTasks_contains]
  have "generateSQL e schema ''u1'' txtQueryMyTasks tr
         = validateAndReturn e
             (sqlSelectCards
              @ buildAssigneeClause ''u1''
                  (case discoverPropertyCatalog e of Inl err \<Rightarrow> None | Inr c \<Rightarrow> Some c)
              @ sqlOrderLimit) tr"
    by (rule generateSQL_myTasks)
  also have "\<dots> = validateAndReturn e demoSQL tr"
    by (simp only: assms(2) sum.case buildAssigneeClause_single [OF assms(3,4)] demoSQL_eq)
  also have "\<dots> = (Inr demoSQL, tr @ [Validate demoSQL None])"
    by (simp add: validateAndReturn_def validate_demoSQL)
  finally show ?thesis .
qed

lemma classifyIntent_demo: "classifyIntent demoEnv txtQueryMyTasks [] = (Inr intentQueryData, [])"
proof -
  have "caselessCJK (toLowerTable demoEnv)" by (simp add: demoEnv_def caselessCJK_id)
  from myTasksRule_of_question [OF this txtQueryMyTasks_contains]
  show ?thesis by (simp add: classifyIntent_def Let_def)
qed

lemma generateSQL_demo:
  "generateSQL demoEnv schema ''u1'' txtQueryMyTasks [] = (Inr demoSQL, [Validate demoSQL None])"
proof -
  have "generateSQL demoEnv schema ''u1'' txtQueryMyTasks []
        = (Inr demoSQL, [] @ [Validate demoSQL None])"
    by (rule generateSQL_assignee_u1 [where c = demoCatalog])
       (simp_all add: demoEnv_def caselessCJK_id demoCatalog_def)
  then show ?thesis by simp
qed

lemma toLower_sqlite3: "strings_ToLower tbl ''sqlite3'' = ''sqlite3''"
  by code_simp

lemma executeQuery_demo0:
  "executeQuery demoEnv 0 query tr = (Inr ''[]'', tr @ [ExecuteQuery query])"
  by (simp add: executeQuery_def demoEnv_def toLower_sqlite3)

lemma executeQuery_demo1:
  "executeQuery demoEnv 1 query tr = (Inr ''[1]'', tr @ [ExecuteQuery query])"
  by (simp add: executeQuery_def demoEnv_def toLower_sqlite3)

lemma intent_distinct: "intentQueryData \<noteq> intentChat"
  by (simp add: intentQueryData_def intentChat_def)

lemma PrepareRAGResponse_demo:
  "PrepareRAGResponse demoEnv ''u1'' txtQueryMyTasks
   = (Inr (buildFinalPrompt txtQueryMyTasks ''[1]''),
      [Validate demoSQL None, ExecuteQuery demoSQL, ExecuteQuery fallbackSQL])"
  by (simp only: PrepareRAGResponse_def classifyIntent_demo intent_distinct generateSQL_demo
        executeQuery_demo0 executeQuery_demo1 trim_brackets prod.case sum.case if_True if_False
        simp_thms append.simps)

lemma PrepareRAGResponse_executes:
  assumes c: "classifyIntent e question [] = (Inr intentQueryData, tr1)"
    and g: "generateSQL e ragSchemaDDL userID question tr1 = (Inr sqlText, tr2)"
  shows "PrepareRAGResponse e userID question =
     (case executeQuery e 0 sqlText tr2 of
        (Inl err, tr3) \<Rightarrow> (Inl err, tr3)
      | (Inr contextJSON, tr3) \<Rightarrow>
          if strings_TrimSpace contextJSON = ''[]'' then
            (case executeQuery e 1 fallbackSQL tr3 of
               (Inr fbJSON, tr4) \<Rightarrow> (Inr (buildFinalPrompt question fbJSON), tr4)
             | (Inl fbErr, tr4) \<Rightarrow> (Inr (buildFinalPrompt question contextJSON), tr4))
          else (Inr (buildFinalPrompt question contextJSON), tr3))"
  by (simp only: PrepareRAGResponse_def c g prod.case sum.case intent_distinct if_False
        simp_thms)

lemma executeQuery_trace: "snd (executeQuery e n query tr) = tr @ [ExecuteQuery query]"
  by (cases "dbQuery e n query") (simp_all add: executeQuery_def Let_def)

lemma executeQuery_error:
  "fst (executeQuery e n query tr) = Inl err
   \<Longrightarrow> err = ErrUnsupportedDBType \<or> (\<exists>msg. err = ErrExternal msg)"
  by (cases "dbQuery e n query") (auto simp: executeQuery_def Let_def split: if_splits)

text \<open>What the pipeline does once the statement is generated: one query, or two.\<close>

lemma PrepareRAGResponse_after_generate:
  assumes c: "classifyIntent e question [] = (Inr intentQueryData, tr1)"
    and g: "generateSQL e ragSchemaDDL userID question tr1 = (Inr sqlText, tr2)"
  shows "(\<exists>err. PrepareRAGResponse e userID question = (Inl err, tr2 @ [ExecuteQuery sqlText])
            \<and> (err = ErrUnsupportedDBType \<or> (\<exists>msg. err = ErrExternal msg)))
       \<or> (\<exists>p. PrepareRAGResponse e userID question = (Inr p, tr2 @ [ExecuteQuery sqlText]))
       \<or> (\<exists>p. PrepareRAGResponse e userID question
                = (Inr p, tr2 @ [ExecuteQuery sqlText, ExecuteQuery fallbackSQL]))"
proof -
  obtain r0 t0 where x0: "executeQuery e 0 sqlText tr2 = (r0, t0)"
    by (cases "executeQuery e 0 sqlText tr2")
  with executeQuery_trace [of e 0 sqlText tr2] have t0: "t0 = tr2 @ [ExecuteQuery sqlText]"
    by simp
  obtain r1 t1 where x1: "executeQuery e 1 fallbackSQL t0 = (r1, t1)"
    by (cases "executeQuery e 1 fallbackSQL t0")
  with executeQuery_trace [of e 1 fallbackSQL t0] t0
  have t1: "t1 = tr2 @ [ExecuteQuery sqlText, ExecuteQuery fallbackSQL]"
    by simp
  show ?thesis
  proof (cases r0)
    case (Inl err)
    with x0 executeQuery_error [of e 0 sqlText tr2 err]
    have "err = ErrUnsupportedDBType \<or> (\<exists>msg. err = ErrExternal msg)" by simp
    moreover have "PrepareRAGResponse e userID question = (Inl err, tr2 @ [ExecuteQuery sqlText])"
      unfolding PrepareRAGResponse_executes [OF c g] x0 Inl t0 by simp
    ultimately show ?thesis by blast
  next
    case (Inr contextJSON)
    show ?thesis
    proof (cases "strings_TrimSpace contextJSON = ''[]''")
      case False
      have "PrepareRAGResponse e userID question
            = (Inr (buildFinalPrompt question contextJSON), tr2 @ [ExecuteQuery sqlText])"
        unfolding PrepareRAGResponse_executes [OF c g] x0 Inr using False t0
        by (simp only: prod.case sum.case if_False)
      then show ?thesis by blast
    next
      case True
      have "\<exists>p. PrepareRAGResponse e userID question = (Inr p, t1)"
        unfolding PrepareRAGResponse_executes [OF c g] x0 Inr using True x1
        by (cases r1) (simp_all only: prod.case sum.case if_True simp_thms, blast+)
      with t1 show ?thesis by blast
    qed
  qed
qed

lemma isCallQwen_simps [simp]:
  "isCallQwen (CallQwen p)" "\<not> isCallQwen (Validate sql r)" "\<not> isCallQwen (ExecuteQuery sql)"
  by (simp_all add: isCallQwen_def)

lemma PrepareRAGResponse_shape:
  "\<exists>pre. list_all isCallQwen pre \<and>
     ((\<exists>err. PrepareRAGResponse e userID question = (Inl err, pre)
             \<and> (err = ErrIntentIsChat \<or> libraryError err))
      \<or> (\<exists>sql err. validateReadOnlySQL (toUpperTable e) sql = Some err
             \<and> PrepareRAGResponse e userID question = (Inl err, pre @ [Validate sql (Some err)]))
      \<or> (\<exists>sql. validateReadOnlySQL (toUpperTable e) sql = None
             \<and> ((\<exists>err. PrepareRAGResponse e userID question
                          = (Inl err, (pre @ [Validate sql None]) @ [ExecuteQuery sql])
                        \<and> (err = ErrUnsupportedDBType \<or> (\<exists>msg. err = ErrExternal msg)))
                  \<or> (\<exists>p. PrepareRAGResponse e userID question
                          = (Inr p, (pre @ [Validate sql None]) @ [ExecuteQuery sql]))
                  \<or> (\<exists>p. PrepareRAGResponse e userID question
                          = (Inr p, (pre @ [Validate sql None])
                                    @ [ExecuteQuery sql, ExecuteQuery fallbackSQL])))))"
  (is "\<exists>pre. ?P pre")
proof -
  from classifyIntent_cases [of e question "[]"]
  obtain r tr1 where c: "classifyIntent e question [] = (r, tr1)"
    and q1: "list_all isCallQwen tr1"
    and r: "r = Inr intentQueryData \<or> r = Inr intentChat \<or> (\<exists>err. r = Inl err \<and> libraryError err)"
    by auto
  show ?thesis
  proof (cases "r = Inr intentQueryData")
    case False
    with r have "\<exists>err. PrepareRAGResponse e userID question = (Inl err, tr1)
             \<and> (err = ErrIntentIsChat \<or> libraryError err)"
      by (auto simp: PrepareRAGResponse_def c)
    with q1 show ?thesis by blast
  next
    case True
    with c have c': "classifyIntent e question [] = (Inr intentQueryData, tr1)" by simp
    let ?call = "CallQwen (generatePrompt ragSchemaDDL userID question)"
    have q2: "list_all isCallQwen (tr1 @ [?call])" using q1 by simp
    from generateSQL_cases [of e ragSchemaDDL userID question tr1]
    have "(\<exists>sql tr1'. list_all isCallQwen tr1'
             \<and> generateSQL e ragSchemaDDL userID question tr1 = validateAndReturn e sql tr1')
          \<or> (\<exists>err. generateSQL e ragSchemaDDL userID question tr1 = (Inl err, tr1 @ [?call])
                \<and> libraryError err)"
    proof (elim disjE exE conjE)
      fix sql
      assume "generateSQL e ragSchemaDDL userID question tr1 = validateAndReturn e sql tr1"
      with q1 show ?thesis by blast
    next
      fix sql
      assume "generateSQL e ragSchemaDDL userID question tr1
              = validateAndReturn e sql (tr1 @ [?call])"
      with q2 show ?thesis by blast
    next
      fix err
      assume "generateSQL e ragSchemaDDL userID question tr1 = (Inl err, tr1 @ [?call])"
        "libraryError err"
      then show ?thesis by blast
    qed
    then consider (val) sql tr1' where "list_all isCallQwen tr1'"
        "generateSQL e ragSchemaDDL userID question tr1 = validateAndReturn e sql tr1'"
      | (err) err where "generateSQL e ragSchemaDDL userID question tr1 = (Inl err, tr1 @ [?call])"
        "libraryError err"
      by blast
    then show ?thesis
    proof cases
      case (err err)
      have "PrepareRAGResponse e userID question = (Inl err, tr1 @ [?call])"
        by (simp only: PrepareRAGResponse_def c' err(1) prod.case sum.case intent_distinct
              if_False simp_thms)
      moreover have "list_all isCallQwen (tr1 @ [?call])" using q1 by simp
      ultimately show ?thesis using err(2) by blast
    next
      case (val sql tr1')
      from validateAndReturn_cases [of e sql tr1'] show ?thesis
      proof (elim disjE exE conjE)
        fix verr
        assume v: "validateReadOnlySQL (toUpperTable e) sql = Some verr"
          and "validateAndReturn e sql tr1' = (Inl verr, tr1' @ [Validate sql (Some verr)])"
        with val(2) have "PrepareRAGResponse e userID question
            = (Inl verr, tr1' @ [Validate sql (Some verr)])"
          by (simp only: PrepareRAGResponse_def c' prod.case sum.case intent_distinct
              if_False simp_thms)
        with v val(1) show ?thesis by blast
      next
        assume v: "validateReadOnlySQL (toUpperTable e) sql = None"
          and "validateAndReturn e sql tr1' = (Inr sql, tr1' @ [Validate sql None])"
        with val(2) have g: "generateSQL e ragSchemaDDL userID question tr1
            = (Inr sql, tr1' @ [Validate sql None])" by simp
        from PrepareRAGResponse_after_generate [OF c' g] v val(1) show ?thesis by blast
      qed
    qed
  qed
qed

lemma everyQueryValidated_calls:
  "list_all isCallQwen pre \<Longrightarrow> everyQueryValidated ok (pre @ tr) = everyQueryValidated ok tr"
proof (induction pre)
  case Nil
  show ?case by simp
next
  case (Cons ev pre)
  then show ?case by (cases ev) simp_all
qed

lemma executed_simps [simp]:
  "executed [] = []"
  "executed (ExecuteQuery sql # tr) = sql # executed tr"
  "executed (Validate sql r # tr) = executed tr"
  "executed (CallQwen p # tr) = executed tr"
  by (simp_all add: executed_def)

lemma executed_calls: "list_all isCallQwen pre \<Longrightarrow> executed (pre @ tr) = executed tr"
proof (induction pre)
  case Nil
  show ?case by simp
next
  case (Cons ev pre)
  then show ?case by (cases ev) simp_all
qed

lemma everyQueryValidated_only_calls:
  "list_all isCallQwen pre \<Longrightarrow> everyQueryValidated ok pre"
  using everyQueryValidated_calls [of pre ok "[]"] by simp

lemma executed_only_calls: "list_all isCallQwen pre \<Longrightarrow> executed pre = []"
  using executed_calls [of pre "[]"] by simp

lemma calls_no_Validate: "list_all isCallQwen pre \<Longrightarrow> Validate sql r \<notin> set pre"
  by (auto simp: list_all_iff)

lemma accepted_clean:
  assumes "validateReadOnlySQL tbl s = None"
  shows "s \<noteq> [] \<and> startsWith (upperTrimmed tbl s) ''SELECT''
         \<and> (\<forall>kw \<in> set forbiddenKeywords. \<not> containsWholeWord (upperTrimmed tbl s) kw
                \<and> \<not> containsKeywordAnyCase s kw)
         \<and> (\<forall>c \<in> set forbiddenChars. \<not> containsSubstring s c)"
proof -
  from assms have ne: "s \<noteq> []" and sw: "startsWith (upperTrimmed tbl s) ''SELECT''"
    and k: "find (containsWholeWord (upperTrimmed tbl s)) forbiddenKeywords = None"
    and c: "find (containsSubstring (upperTrimmed tbl s)) forbiddenChars = None"
    unfolding validateReadOnlySQL_eq by (simp_all split: if_splits option.splits)
  from k have k': "\<forall>kw \<in> set forbiddenKeywords. \<not> containsWholeWord (upperTrimmed tbl s) kw"
    by (simp add: find_None_iff)
  from c have c': "\<forall>c \<in> set forbiddenChars. \<not> containsSubstring (upperTrimmed tbl s) c"
    by (simp add: find_None_iff)
  from k' keyword_any_case_upper [of _ s tbl]
  have "\<forall>kw \<in> set forbiddenKeywords. \<not> containsWholeWord (upperTrimmed tbl s) kw
                \<and> \<not> containsKeywordAnyCase s kw" by blast
  moreover from c' forbidden_chars_upper [of _ s tbl]
  have "\<forall>c \<in> set forbiddenChars. \<not> containsSubstring s c" by blast
  ultimately show ?thesis using ne sw by blast
qed

lemma demoSQL_not_fallbackSQL: "demoSQL \<noteq> fallbackSQL"
  by (simp add: demoSQL_def fallbackSQL_def)


section \<open>The claims\<close>

subsection \<open>C1: the rules of the SQL validator\<close>

text \<open>
  Claim C1 says that \<open>validateReadOnlySQL\<close> returns an error naming the keyword when the
  string contains \<open>DELETE\<close>, \<open>UPDATE\<close>, \<open>DROP\<close>, \<open>INSERT\<close>, \<open>TRUNCATE\<close> or \<open>ALTER\<close> as a whole
  word. The code looks for the keywords in the upper-cased, trimmed text, and upper-casing
  can join a letter to the keyword: in
  \<open>SELECT 1 FROM t WHERE\<close> U+017F\<open>DROP TABLE boards\<close> the keyword \<open>DROP\<close> is a whole word (the
  long s before it is no word character), the upper-cased text reads \<open>SDROP\<close>, and the
  validator returns \<open>nil\<close>.
\<close>

theorem validateReadOnlySQL_longS_counterexample:
  "sqlLongSDrop \<noteq> []
   \<and> startsWith (upperTrimmed upperTableLongS sqlLongSDrop) ''SELECT''
   \<and> ''DROP'' \<in> set forbiddenKeywords
   \<and> containsWholeWord sqlLongSDrop ''DROP''
   \<and> validateReadOnlySQL upperTableLongS sqlLongSDrop = None"
proof -
  have "sqlLongSDrop \<noteq> []" by (simp add: sqlLongSDrop_def)
  moreover have "startsWith (upperTrimmed upperTableLongS sqlLongSDrop) ''SELECT''"
    unfolding up_longS strings_HasPrefix_iff [symmetric] by simp
  moreover have "''DROP'' \<in> set forbiddenKeywords" by (simp add: forbiddenKeywords_def)
  moreover have "containsWholeWord sqlLongSDrop ''DROP''"
    using ww_longS by (simp add: regexp_MatchWord_iff)
  ultimately show ?thesis using val_longS by simp
qed

text \<open>
  Claim C1, amended. \<open>validateReadOnlySQL\<close>, applied to any string, returns an error for the
  empty string; else the not-a-SELECT error when the upper-cased, trimmed string does not
  start with \<open>SELECT\<close>; else an error naming a keyword that occurs when the upper-cased,
  trimmed string contains \<open>DELETE\<close>, \<open>UPDATE\<close>, \<open>DROP\<close>, \<open>INSERT\<close>, \<open>TRUNCATE\<close> or \<open>ALTER\<close> as a
  whole word; else the forbidden-characters error when it contains \<open>;\<close>, \<open>--\<close> or \<open>/*\<close>; and
  \<open>nil\<close> exactly when no rule fails. Every rule is stated under the hypothesis that the
  rules before it passed: the first failure wins. About the input string itself: the
  keyword rule fires whenever the input contains a keyword in any letter case between ASCII
  characters that are not word characters (or at an end of the string), and the character
  rule fires whenever the input contains \<open>;\<close>, \<open>--\<close> or \<open>/*\<close>. The statement
  \<open>SELECT id, title FROM blocks WHERE type='card'\<close> is accepted.
\<close>

theorem validateReadOnlySQL_rules:
  "validateReadOnlySQL tbl [] = Some ErrGeneratedSQLEmpty
   \<and> (s \<noteq> [] \<and> \<not> startsWith (upperTrimmed tbl s) ''SELECT''
        \<longrightarrow> validateReadOnlySQL tbl s = Some (ErrGeneratedSQLNotSelect s))
   \<and> (s \<noteq> [] \<and> startsWith (upperTrimmed tbl s) ''SELECT''
        \<and> (\<exists>kw \<in> set forbiddenKeywords. containsWholeWord (upperTrimmed tbl s) kw)
        \<longrightarrow> (\<exists>kw \<in> set forbiddenKeywords. containsWholeWord (upperTrimmed tbl s) kw
              \<and> validateReadOnlySQL tbl s = Some (ErrGeneratedSQLForbidden kw)))
   \<and> (s \<noteq> [] \<and> startsWith (upperTrimmed tbl s) ''SELECT''
        \<and> \<not> (\<exists>kw \<in> set forbiddenKeywords. containsWholeWord (upperTrimmed tbl s) kw)
        \<and> (\<exists>c \<in> set forbiddenChars. containsSubstring (upperTrimmed tbl s) c)
        \<longrightarrow> (\<exists>c \<in> set forbiddenChars. containsSubstring (upperTrimmed tbl s) c
              \<and> validateReadOnlySQL tbl s = Some (ErrGeneratedSQLChars c)))
   \<and> (validateReadOnlySQL tbl s = None
        \<longleftrightarrow> s \<noteq> [] \<and> startsWith (upperTrimmed tbl s) ''SELECT''
            \<and> \<not> (\<exists>kw \<in> set forbiddenKeywords. containsWholeWord (upperTrimmed tbl s) kw)
            \<and> \<not> (\<exists>c \<in> set forbiddenChars. containsSubstring (upperTrimmed tbl s) c))
   \<and> (startsWith (upperTrimmed tbl s) ''SELECT''
        \<and> (\<exists>kw \<in> set forbiddenKeywords. containsKeywordAnyCase s kw)
        \<longrightarrow> (\<exists>kw \<in> set forbiddenKeywords. containsWholeWord (upperTrimmed tbl s) kw
              \<and> validateReadOnlySQL tbl s = Some (ErrGeneratedSQLForbidden kw)))
   \<and> (startsWith (upperTrimmed tbl s) ''SELECT''
        \<and> \<not> (\<exists>kw \<in> set forbiddenKeywords. containsWholeWord (upperTrimmed tbl s) kw)
        \<and> (\<exists>c \<in> set forbiddenChars. containsSubstring s c)
        \<longrightarrow> (\<exists>c \<in> set forbiddenChars. containsSubstring (upperTrimmed tbl s) c
              \<and> validateReadOnlySQL tbl s = Some (ErrGeneratedSQLChars c)))
   \<and> validateReadOnlySQL tbl exampleSelect = None"
proof -
  note u = validateReadOnlySQL_upper_rules [of tbl s]
  have k: "startsWith (upperTrimmed tbl s) ''SELECT''
        \<and> (\<exists>kw \<in> set forbiddenKeywords. containsKeywordAnyCase s kw)
        \<longrightarrow> (\<exists>kw \<in> set forbiddenKeywords. containsWholeWord (upperTrimmed tbl s) kw
              \<and> validateReadOnlySQL tbl s = Some (ErrGeneratedSQLForbidden kw))"
  proof (intro impI, elim conjE bexE)
    fix kw
    assume st: "startsWith (upperTrimmed tbl s) ''SELECT''"
      and kw: "kw \<in> set forbiddenKeywords" and c: "containsKeywordAnyCase s kw"
    from c kw forbiddenKeywords_nonempty have ne: "s \<noteq> []"
      unfolding containsKeywordAnyCase_def by auto
    from keyword_any_case_upper [OF kw c, of tbl] kw
    have "\<exists>kw \<in> set forbiddenKeywords. containsWholeWord (upperTrimmed tbl s) kw" by blast
    with u ne st
    show "\<exists>kw \<in> set forbiddenKeywords. containsWholeWord (upperTrimmed tbl s) kw
              \<and> validateReadOnlySQL tbl s = Some (ErrGeneratedSQLForbidden kw)" by blast
  qed
  have c: "startsWith (upperTrimmed tbl s) ''SELECT''
        \<and> \<not> (\<exists>kw \<in> set forbiddenKeywords. containsWholeWord (upperTrimmed tbl s) kw)
        \<and> (\<exists>c \<in> set forbiddenChars. containsSubstring s c)
        \<longrightarrow> (\<exists>c \<in> set forbiddenChars. containsSubstring (upperTrimmed tbl s) c
              \<and> validateReadOnlySQL tbl s = Some (ErrGeneratedSQLChars c))"
  proof (intro impI, elim conjE bexE)
    fix c
    assume st: "startsWith (upperTrimmed tbl s) ''SELECT''"
      and nk: "\<not> (\<exists>kw \<in> set forbiddenKeywords. containsWholeWord (upperTrimmed tbl s) kw)"
      and c: "c \<in> set forbiddenChars" and cs: "containsSubstring s c"
    from c cs have ne: "s \<noteq> []"
      unfolding containsSubstring_def forbiddenChars_def by auto
    from forbidden_chars_upper [OF c cs, of tbl] c
    have "\<exists>c \<in> set forbiddenChars. containsSubstring (upperTrimmed tbl s) c" by blast
    with u ne st nk
    show "\<exists>c \<in> set forbiddenChars. containsSubstring (upperTrimmed tbl s) c
              \<and> validateReadOnlySQL tbl s = Some (ErrGeneratedSQLChars c)" by blast
  qed
  from u k c show ?thesis by blast
qed

text \<open>The theorem at the statement \<open>select id from blocks; drop table boards\<close>, in lower
  case: the keyword rule fires, and before the rule on \<open>;\<close>.\<close>

theorem validateReadOnlySQL_rules_witness:
  "\<exists>kw \<in> set forbiddenKeywords.
     validateReadOnlySQL (\<lambda>r. r) ''select id from blocks; drop table boards''
       = Some (ErrGeneratedSQLForbidden kw)"
proof -
  let ?s = "''select id from blocks; drop table boards''"
  have up: "upperTrimmed (\<lambda>r. r) ?s = ''SELECT ID FROM BLOCKS; DROP TABLE BOARDS''"
    unfolding upperTrimmed_def by code_simp
  have a: "startsWith (upperTrimmed (\<lambda>r. r) ?s) ''SELECT''"
    unfolding up strings_HasPrefix_iff [symmetric] by simp
  have m: "map asciiUpper ''drop'' = ''DROP''" by code_simp
  have l: "asciiNonWord (last ''select id from blocks; '')"
    by (simp add: asciiNonWord_def isWordChar_def)
  have r: "asciiNonWord (hd '' table boards'')"
    by (simp add: asciiNonWord_def isWordChar_def)
  have e: "?s = ''select id from blocks; '' @ ''drop'' @ '' table boards''" by simp
  have b: "containsKeywordAnyCase ?s ''DROP''"
    unfolding containsKeywordAnyCase_def
    by (rule exI [of _ "''select id from blocks; ''"], rule exI [of _ "''drop''"],
        rule exI [of _ "'' table boards''"])
       (intro conjI disjI2 e m l r)
  have d: "''DROP'' \<in> set forbiddenKeywords" by (simp add: forbiddenKeywords_def)
  from b d have "\<exists>kw \<in> set forbiddenKeywords. containsKeywordAnyCase ?s kw" by (rule bexI)
  with a validateReadOnlySQL_rules [of "\<lambda>r. r" ?s, THEN conjunct2, THEN conjunct2,
      THEN conjunct2, THEN conjunct2, THEN conjunct2, THEN conjunct1]
  have "\<exists>kw \<in> set forbiddenKeywords.
          containsWholeWord (upperTrimmed (\<lambda>r. r) ?s) kw
          \<and> validateReadOnlySQL (\<lambda>r. r) ?s = Some (ErrGeneratedSQLForbidden kw)"
    by (simp only: simp_thms)
  then show ?thesis by (elim bexE conjE) (rule bexI)
qed

subsection \<open>C2: what reaches the executor\<close>

text \<open>
  Claim C2, as stated: every statement passed to \<open>executeQuery\<close> in a run of
  \<open>PrepareRAGResponse\<close> has been passed through \<open>validateReadOnlySQL\<close> before, the fallback
  query included. It fails: the fallback query is executed without having been validated.
  For the question U+67E5 U+8BE2 U+6211 U+7684 U+4EFB U+52A1, the user \<open>u1\<close> and a database
  whose first query returns no rows, the run validates and executes the statement of the
  template, then executes the fallback statement, which is another statement and was never
  validated.
\<close>

theorem PrepareRAGResponse_fallback_not_validated_counterexample:
  "snd (PrepareRAGResponse demoEnv ''u1'' txtQueryMyTasks)
     = [Validate demoSQL None, ExecuteQuery demoSQL, ExecuteQuery fallbackSQL]
   \<and> demoSQL \<noteq> fallbackSQL
   \<and> \<not> everyQueryValidated [] (snd (PrepareRAGResponse demoEnv ''u1'' txtQueryMyTasks))"
  by (simp add: PrepareRAGResponse_demo demoSQL_not_fallbackSQL
        demoSQL_not_fallbackSQL [symmetric])

text \<open>
  Claim C2, amended. In every run of \<open>PrepareRAGResponse\<close>, every statement passed to
  \<open>executeQuery\<close> is either the fixed fallback statement or a statement that was passed
  through \<open>validateReadOnlySQL\<close> earlier in the run with no error
  (\<open>everyQueryValidated [fallbackSQL]\<close>); the validations recorded are the results of
  \<open>validateReadOnlySQL\<close>; the fallback statement is a constant that the validator accepts;
  and so every statement executed is one the validator accepts: its upper-cased, trimmed
  text starts with \<open>SELECT\<close> and contains no forbidden keyword as a whole word, and the
  statement itself contains no forbidden keyword in any letter case between ASCII non-word
  characters and none of the forbidden substrings.
\<close>

theorem PrepareRAGResponse_executes_accepted:
  "everyQueryValidated [fallbackSQL] (snd (PrepareRAGResponse e userID question))
   \<and> (\<forall>sql r. Validate sql r \<in> set (snd (PrepareRAGResponse e userID question))
          \<longrightarrow> r = validateReadOnlySQL (toUpperTable e) sql)
   \<and> validateReadOnlySQL (toUpperTable e) fallbackSQL = None
   \<and> (\<forall>sql \<in> set (executed (snd (PrepareRAGResponse e userID question))).
          validateReadOnlySQL (toUpperTable e) sql = None
          \<and> startsWith (upperTrimmed (toUpperTable e) sql) ''SELECT''
          \<and> (\<forall>kw \<in> set forbiddenKeywords.
                \<not> containsWholeWord (upperTrimmed (toUpperTable e) sql) kw
                \<and> \<not> containsKeywordAnyCase sql kw)
          \<and> (\<forall>c \<in> set forbiddenChars. \<not> containsSubstring sql c))"
proof -
  let ?tr = "snd (PrepareRAGResponse e userID question)"
  let ?v = "validateReadOnlySQL (toUpperTable e)"
  from PrepareRAGResponse_shape [of e userID question]
  obtain pre where q: "list_all isCallQwen pre"
    and s0: "(\<exists>err. PrepareRAGResponse e userID question = (Inl err, pre)
             \<and> (err = ErrIntentIsChat \<or> libraryError err))
      \<or> (\<exists>sql err. ?v sql = Some err
             \<and> PrepareRAGResponse e userID question = (Inl err, pre @ [Validate sql (Some err)]))
      \<or> (\<exists>sql. ?v sql = None
             \<and> ((\<exists>err. PrepareRAGResponse e userID question
                          = (Inl err, (pre @ [Validate sql None]) @ [ExecuteQuery sql])
                        \<and> (err = ErrUnsupportedDBType \<or> (\<exists>msg. err = ErrExternal msg)))
                  \<or> (\<exists>p. PrepareRAGResponse e userID question
                          = (Inr p, (pre @ [Validate sql None]) @ [ExecuteQuery sql]))
                  \<or> (\<exists>p. PrepareRAGResponse e userID question
                          = (Inr p, (pre @ [Validate sql None])
                                    @ [ExecuteQuery sql, ExecuteQuery fallbackSQL]))))"
    by blast
  have s: "?tr = pre
      \<or> (\<exists>sql err. ?v sql = Some err \<and> ?tr = pre @ [Validate sql (Some err)])
      \<or> (\<exists>sql. ?v sql = None
             \<and> (?tr = pre @ [Validate sql None, ExecuteQuery sql]
                  \<or> ?tr = pre @ [Validate sql None, ExecuteQuery sql, ExecuteQuery fallbackSQL]))"
    using s0 by (elim disjE exE conjE) force+
  have fb: "?v fallbackSQL = None" by (rule validate_fallbackSQL)
  have a: "everyQueryValidated [fallbackSQL] ?tr"
    using s by (elim disjE exE conjE)
      (simp_all add: everyQueryValidated_calls [OF q] everyQueryValidated_only_calls [OF q])
  have b: "\<forall>sql r. Validate sql r \<in> set ?tr \<longrightarrow> r = ?v sql"
    using s calls_no_Validate [OF q] by (elim disjE exE conjE) auto
  have c: "\<forall>sql \<in> set (executed ?tr). ?v sql = None"
    using s fb by (elim disjE exE conjE) (auto simp: executed_calls [OF q] executed_only_calls [OF q])
  from c accepted_clean [of "toUpperTable e"] a b fb show ?thesis by blast
qed

text \<open>The theorem at the run of the counterexample: both statements executed are accepted
  by the validator, the first one after its validation, the second one as the fallback.\<close>

theorem PrepareRAGResponse_executes_accepted_witness:
  "executed (snd (PrepareRAGResponse demoEnv ''u1'' txtQueryMyTasks)) = [demoSQL, fallbackSQL]
   \<and> Validate demoSQL None \<in> set (snd (PrepareRAGResponse demoEnv ''u1'' txtQueryMyTasks))
   \<and> validateReadOnlySQL (toUpperTable demoEnv) demoSQL = None
   \<and> validateReadOnlySQL (toUpperTable demoEnv) fallbackSQL = None
   \<and> \<not> containsSubstring demoSQL '';''
   \<and> everyQueryValidated [fallbackSQL] (snd (PrepareRAGResponse demoEnv ''u1'' txtQueryMyTasks))"
proof -
  have x: "executed (snd (PrepareRAGResponse demoEnv ''u1'' txtQueryMyTasks))
           = [demoSQL, fallbackSQL]"
    by (simp add: PrepareRAGResponse_demo)
  have v: "Validate demoSQL None \<in> set (snd (PrepareRAGResponse demoEnv ''u1'' txtQueryMyTasks))"
    by (simp add: PrepareRAGResponse_demo)
  have m: "demoSQL \<in> set (executed (snd (PrepareRAGResponse demoEnv ''u1'' txtQueryMyTasks)))"
    unfolding x by simp
  have sc: "'';'' \<in> set forbiddenChars" by (simp add: forbiddenChars_def)
  note t = PrepareRAGResponse_executes_accepted [of demoEnv "''u1''" txtQueryMyTasks]
  from t have t1: "everyQueryValidated [fallbackSQL]
      (snd (PrepareRAGResponse demoEnv ''u1'' txtQueryMyTasks))" by (rule conjunct1)
  from t have t3: "validateReadOnlySQL (toUpperTable demoEnv) fallbackSQL = None"
    by (rule conjunct2 [THEN conjunct2, THEN conjunct1])
  from t have t4: "\<forall>sql \<in> set (executed (snd (PrepareRAGResponse demoEnv ''u1'' txtQueryMyTasks))).
          validateReadOnlySQL (toUpperTable demoEnv) sql = None
          \<and> startsWith (upperTrimmed (toUpperTable demoEnv) sql) ''SELECT''
          \<and> (\<forall>kw \<in> set forbiddenKeywords.
                \<not> containsWholeWord (upperTrimmed (toUpperTable demoEnv) sql) kw
                \<and> \<not> containsKeywordAnyCase sql kw)
          \<and> (\<forall>c \<in> set forbiddenChars. \<not> containsSubstring sql c)"
    by (rule conjunct2 [THEN conjunct2, THEN conjunct2])
  note d = bspec [OF t4 m]
  from d have d1: "validateReadOnlySQL (toUpperTable demoEnv) demoSQL = None"
    by (rule conjunct1)
  from d have d2: "\<forall>c \<in> set forbiddenChars. \<not> containsSubstring demoSQL c"
    by (rule conjunct2 [THEN conjunct2, THEN conjunct2])
  from bspec [OF d2 sc] have d3: "\<not> containsSubstring demoSQL '';''" .
  from x v d1 t3 d3 t1 show ?thesis by (simp only: simp_thms)
qed

subsection \<open>C3: the outbound chunks of the streaming relay\<close>

text \<open>
  Claim C3. For every run of \<open>handleAIChatStream\<close> that reaches the stream-reading loop,
  whatever the upstream lines and however the scanner ended: the outbound chunks are one
  chunk \<open>{content, done:false}\<close> for each non-empty text delta of the lines read, in the
  order of the lines, followed by the terminal chunk \<open>{content:"", done:true}\<close>; the
  terminal chunk is the last outbound event and the only chunk with \<open>done\<close> set. In
  particular three content-bearing deltas followed by a finish-reason event give exactly
  three \<open>done:false\<close> chunks in order and one \<open>done:true\<close> chunk, whatever follows upstream
  and even when the upstream ends with a read error.
\<close>

theorem relayStream_chunks:
  "relayStream u lines ending
     = map contentChunk (List.map_filter (textDelta u) (linesRead u lines)) @ [finalChunk]
   \<and> last (relayStream u lines ending) = finalChunk
   \<and> filter Done (relayStream u lines ending) = [finalChunk]
   \<and> (textDelta u l1 = Some c1 \<and> \<not> stopsRelay u l1
        \<and> textDelta u l2 = Some c2 \<and> \<not> stopsRelay u l2
        \<and> textDelta u l3 = Some c3 \<and> \<not> stopsRelay u l3
        \<and> textDelta u l4 = None \<and> stopsRelay u l4
        \<longrightarrow> relayStream u ([l1, l2, l3, l4] @ rest) (ReadError msg)
              = [contentChunk c1, contentChunk c2, contentChunk c3, finalChunk])"
proof -
  have eq: "\<And>ls e. relayStream u ls e
     = map contentChunk (List.map_filter (textDelta u) (linesRead u ls)) @ [finalChunk]"
    by (simp add: relayStream_def relayLoop_eq)
  have l: "last (relayStream u lines ending) = finalChunk"
    by (simp add: relayStream_def)
  have f: "filter Done (relayStream u lines ending) = [finalChunk]"
    unfolding eq by (simp add: filter_Done_contentChunk finalChunk_def)
  have p: "textDelta u l1 = Some c1 \<and> \<not> stopsRelay u l1
        \<and> textDelta u l2 = Some c2 \<and> \<not> stopsRelay u l2
        \<and> textDelta u l3 = Some c3 \<and> \<not> stopsRelay u l3
        \<and> textDelta u l4 = None \<and> stopsRelay u l4
        \<longrightarrow> relayStream u ([l1, l2, l3, l4] @ rest) (ReadError msg)
              = [contentChunk c1, contentChunk c2, contentChunk c3, finalChunk]"
    unfolding eq by simp
  from eq [of lines ending] l f p show ?thesis by blast
qed

text \<open>The theorem on an upstream of three deltas, a finish-reason event, a late delta and a
  read error.\<close>

theorem relayStream_chunks_witness:
  "relayStream demoUnmarshal
      ([''data: Hel'', ''data: lo '', ''data: you'', ''data: stop''] @ [''data: late''])
      (ReadError ''connection reset'')
    = [\<lparr>Content = ''Hel'', Done = False\<rparr>, \<lparr>Content = ''lo '', Done = False\<rparr>,
       \<lparr>Content = ''you'', Done = False\<rparr>, \<lparr>Content = [], Done = True\<rparr>]"
  using relayStream_chunks [of demoUnmarshal "[]" EndOfStream "''data: Hel''" "''Hel''"
      "''data: lo ''" "''lo ''" "''data: you''" "''you''" "''data: stop''" "[''data: late'']"
      "''connection reset''"]
  by (simp add: textDelta_def stopsRelay_def demoUnmarshal_def contentChunk_def finalChunk_def)

subsection \<open>C4: the fallback query\<close>



subsection \<open>C5: the keyword rules of the classifier\<close>

text \<open>
  Claim C5. For every question that matches a keyword rule of the classifier (the rule on
  my tasks, or a key word together with the word for task, both on the lower-cased, trimmed
  question), and in particular for every question that contains the phrase
  U+6211 U+7684 U+4EFB U+52A1 (my tasks), \<open>classifyIntent\<close> returns \<open>query_data\<close> and
  leaves the trace as it was: \<open>callQwenInternal\<close> is not called. The particular case needs
  that the case tables leave the CJK ideographs alone, as Go's do.
\<close>

theorem classifyIntent_keyword_rules:
  "(myTasksRule (strings_ToLower (toLowerTable e) (strings_TrimSpace question))
      \<or> keyAndTaskRule (strings_ToLower (toLowerTable e) (strings_TrimSpace question))
    \<longrightarrow> classifyIntent e question tr = (Inr intentQueryData, tr))
   \<and> (caselessCJK (toLowerTable e) \<and> containsSubstring question txtMyTasks
        \<longrightarrow> classifyIntent e question tr = (Inr intentQueryData, tr))"
proof -
  have a: "myTasksRule (strings_ToLower (toLowerTable e) (strings_TrimSpace question))
      \<or> keyAndTaskRule (strings_ToLower (toLowerTable e) (strings_TrimSpace question))
    \<longrightarrow> classifyIntent e question tr = (Inr intentQueryData, tr)"
    by (auto simp: classifyIntent_def Let_def)
  have "caselessCJK (toLowerTable e) \<and> containsSubstring question txtMyTasks
        \<longrightarrow> myTasksRule (strings_ToLower (toLowerTable e) (strings_TrimSpace question))"
    using myTasksRule_of_question by blast
  with a show ?thesis by blast
qed

text \<open>The theorem at the question U+67E5 U+8BE2 U+6211 U+7684 U+4EFB U+52A1 (query my tasks).\<close>

theorem classifyIntent_keyword_rules_witness:
  "classifyIntent demoEnv txtQueryMyTasks [] = (Inr intentQueryData, [])"
  using classifyIntent_keyword_rules [of demoEnv txtQueryMyTasks "[]"]
    txtQueryMyTasks_contains caselessCJK_id
  by (simp add: demoEnv_def)

subsection \<open>C7: the assignee clause for one person property\<close>



subsection \<open>C10: the two intents\<close>

text \<open>
  Claim C10. Whenever \<open>classifyIntent\<close> returns without an error, the intent it returns is
  the text \<open>chat\<close> or the text \<open>query_data\<close>. So the branch of \<open>PrepareRAGResponse\<close> for an
  intent that is neither is never taken: no run of \<open>PrepareRAGResponse\<close> returns
  \<open>ErrUnknownIntent\<close>.
\<close>

theorem classifyIntent_two_intents:
  "(classifyIntent e question tr = (Inr intent, tr')
      \<longrightarrow> intent = ''chat'' \<or> intent = ''query_data'')
   \<and> (classifyIntent e question [] = (Inr intent, tr')
      \<longrightarrow> \<not> (intent \<noteq> intentChat \<and> intent \<noteq> intentQueryData))
   \<and> fst (PrepareRAGResponse e userID question) \<noteq> Inl ErrUnknownIntent"
proof -
  have a: "classifyIntent e question tr = (Inr intent, tr')
      \<longrightarrow> intent = ''chat'' \<or> intent = ''query_data''" for tr
    using classifyIntent_cases [of e question tr]
    by (auto simp: intentChat_def intentQueryData_def)
  have b: "classifyIntent e question [] = (Inr intent, tr')
      \<longrightarrow> \<not> (intent \<noteq> intentChat \<and> intent \<noteq> intentQueryData)"
    using a [of "[]"] by (simp add: intentChat_def intentQueryData_def)
  from PrepareRAGResponse_shape [of e userID question]
  have c: "fst (PrepareRAGResponse e userID question) \<noteq> Inl ErrUnknownIntent"
  proof (elim exE conjE disjE)
    fix pre sql err
    assume "validateReadOnlySQL (toUpperTable e) sql = Some err"
      "PrepareRAGResponse e userID question = (Inl err, pre @ [Validate sql (Some err)])"
    with validateReadOnlySQL_error [of "toUpperTable e" sql err] show ?thesis by auto
  qed auto
  from a [of tr] b c show ?thesis by blast
qed

text \<open>The theorem at a question that a keyword rule classifies.\<close>

theorem classifyIntent_two_intents_witness:
  "classifyIntent demoEnv txtQueryMyTasks [] = (Inr intentQueryData, [])
   \<and> (intentQueryData = ''chat'' \<or> intentQueryData = ''query_data'')
   \<and> fst (PrepareRAGResponse demoEnv ''u1'' txtQueryMyTasks) \<noteq> Inl ErrUnknownIntent"
  using classifyIntent_two_intents [of demoEnv txtQueryMyTasks "[]" intentQueryData "[]" "''u1''"]
    classifyIntent_demo
  by (simp only: simp_thms)

end
